theory Spec2Isabelle
  imports Complex_Main
begin

chapter \<open>Zap receipts: the matcher and the multi-relay query\<close>

text \<open>
  The functions \<^verbatim>\<open>parseZapReceipt\<close>, \<^verbatim>\<open>fetchZapReceiptForInvoice\<close> and
  \<^verbatim>\<open>fetchZapReceiptsForInvoices\<close> of \<^verbatim>\<open>src/lib/spark/fetchZapReceipts.ts\<close>: the
  matcher as a function on values, the query as the state its callbacks share, with one
  handler per callback, and the claims of the specification about them.
\<close>

section \<open>JavaScript values\<close>

text \<open>
  The zap request that \<^verbatim>\<open>parseZapReceipt\<close> reads out of the description tag is
  whatever \<^verbatim>\<open>JSON.parse\<close> returns, so it is modelled as an untyped JavaScript value.
  Numbers are rationals (every finite double is one); an object is its list of
  properties, read with \<open>map_of\<close>.
\<close>

datatype jsval =
    JUndefined
  | JNull
  | JBool bool
  | JNum rat
  | JStr string
  | JArr "jsval list"
  | JObj "(string \<times> jsval) list"

datatype exn = TypeError | SyntaxError

text \<open>\<^verbatim>\<open>!v\<close> is false exactly on the truthy values.\<close>

fun truthy :: "jsval \<Rightarrow> bool" where
  "truthy JUndefined = False"
| "truthy JNull = False"
| "truthy (JBool b) = b"
| "truthy (JNum q) = (q \<noteq> 0)"
| "truthy (JStr s) = (s \<noteq> [])"
| "truthy (JArr xs) = True"
| "truthy (JObj kvs) = True"

text \<open>
  \<^verbatim>\<open>v.name\<close> for the property names the source reads (\<^verbatim>\<open>kind\<close>, \<^verbatim>\<open>pubkey\<close>,
  \<^verbatim>\<open>content\<close>): a TypeError on \<^verbatim>\<open>null\<close> and \<^verbatim>\<open>undefined\<close>, the property of an
  object, and \<^verbatim>\<open>undefined\<close> on every other value.
\<close>

fun get_prop :: "jsval \<Rightarrow> string \<Rightarrow> exn + jsval" where
  "get_prop JUndefined name = Inl TypeError"
| "get_prop JNull name = Inl TypeError"
| "get_prop (JObj kvs) name = Inr (case map_of kvs name of None \<Rightarrow> JUndefined | Some v \<Rightarrow> v)"
| "get_prop v name = Inr JUndefined"

section \<open>JSON.parse\<close>

text \<open>
  \<^verbatim>\<open>JSON.parse\<close> is a built-in of the language, not code of the repository. The
  matcher below takes it as a parameter of type \<open>json_parser\<close>, so that every general
  theorem about the matcher holds for any implementation of it. \<open>JSON_parse\<close> is a
  concrete recursive-descent parser of the JSON grammar, on which the literal fixtures
  are evaluated. A string is a list of bytes; an escape \<^verbatim>\<open>\uXXXX\<close> yields the UTF-8 bytes
  of that code unit.
\<close>

type_synonym json_parser = "string \<Rightarrow> exn + jsval"

definition dquote :: char where
  "dquote = CHR 0x22"

definition backslash :: char where
  "backslash = CHR 0x5C"

definition is_ws :: "char \<Rightarrow> bool" where
  "is_ws c = (c = CHR 0x20 \<or> c = CHR 0x09 \<or> c = CHR 0x0A \<or> c = CHR 0x0D)"

fun skip_ws :: "string \<Rightarrow> string" where
  "skip_ws [] = []"
| "skip_ws (c # cs) = (if is_ws c then skip_ws cs else c # cs)"

definition is_digit :: "char \<Rightarrow> bool" where
  "is_digit c = (48 \<le> (of_char c :: nat) \<and> (of_char c :: nat) \<le> 57)"

definition digits_val :: "string \<Rightarrow> nat" where
  "digits_val ds = foldl (\<lambda>a c. 10 * a + ((of_char c :: nat) - 48)) 0 ds"

definition hex_val :: "char \<Rightarrow> nat option" where
  "hex_val c =
     (let n = (of_char c :: nat) in
      if 48 \<le> n \<and> n \<le> 57 then Some (n - 48)
      else if 65 \<le> n \<and> n \<le> 70 then Some (n - 55)
      else if 97 \<le> n \<and> n \<le> 102 then Some (n - 87)
      else None)"

definition utf8 :: "nat \<Rightarrow> string" where
  "utf8 n =
     (if n < 128 then [char_of n]
      else if n < 2048 then [char_of (192 + n div 64), char_of (128 + n mod 64)]
      else [char_of (224 + n div 4096), char_of (128 + (n div 64) mod 64),
            char_of (128 + n mod 64)])"

definition unescape :: "char \<Rightarrow> char option" where
  "unescape e =
     (if e = dquote then Some dquote
      else if e = backslash then Some backslash
      else if e = CHR ''/'' then Some (CHR ''/'')
      else if e = CHR ''b'' then Some (CHR 0x08)
      else if e = CHR ''f'' then Some (CHR 0x0C)
      else if e = CHR ''n'' then Some (CHR 0x0A)
      else if e = CHR ''r'' then Some (CHR 0x0D)
      else if e = CHR ''t'' then Some (CHR 0x09)
      else None)"

text \<open>The characters of a string literal, after its opening quote.\<close>

fun parse_chars :: "string \<Rightarrow> string \<Rightarrow> (string \<times> string) option" where
  "parse_chars [] acc = None"
| "parse_chars (c # cs) acc =
     (if c = dquote then Some (acc, cs)
      else if (of_char c :: nat) < 32 then None
      else if c \<noteq> backslash then parse_chars cs (acc @ [c])
      else (case cs of
              [] \<Rightarrow> None
            | e # es \<Rightarrow>
                if e = CHR ''u'' then
                  (case es of
                     h1 # h2 # h3 # h4 # rest \<Rightarrow>
                       (case (hex_val h1, hex_val h2, hex_val h3, hex_val h4) of
                          (Some a, Some b, Some c', Some d) \<Rightarrow>
                            parse_chars rest (acc @ utf8 (((a * 16 + b) * 16 + c') * 16 + d))
                        | _ \<Rightarrow> None)
                   | _ \<Rightarrow> None)
                else (case unescape e of
                        None \<Rightarrow> None
                      | Some x \<Rightarrow> parse_chars es (acc @ [x]))))"

text \<open>
  A number: \<^verbatim>\<open>-? (0 | [1-9][0-9]*) (. [0-9]+)? ([eE] [+-]? [0-9]+)?\<close>, as the rational it
  denotes.
\<close>

definition parse_number :: "string \<Rightarrow> (rat \<times> string) option" where
  "parse_number s =
     (let neg = (s \<noteq> [] \<and> hd s = CHR ''-'');
          s1 = (if neg then tl s else s);
          ip = takeWhile is_digit s1;
          s2 = dropWhile is_digit s1;
          has_frac = (s2 \<noteq> [] \<and> hd s2 = CHR ''.'');
          fp = (if has_frac then takeWhile is_digit (tl s2) else []);
          s3 = (if has_frac then dropWhile is_digit (tl s2) else s2);
          has_exp = (s3 \<noteq> [] \<and> (hd s3 = CHR ''e'' \<or> hd s3 = CHR ''E''));
          s4 = (if has_exp then tl s3 else s3);
          eneg = (has_exp \<and> s4 \<noteq> [] \<and> hd s4 = CHR ''-'');
          s5 = (if has_exp \<and> s4 \<noteq> [] \<and> (hd s4 = CHR ''-'' \<or> hd s4 = CHR ''+'') then tl s4 else s4);
          ep = (if has_exp then takeWhile is_digit s5 else []);
          s6 = (if has_exp then dropWhile is_digit s5 else s3);
          mant = (of_nat (digits_val (ip @ fp)) :: rat) / 10 ^ length fp;
          scaled = (if eneg then mant / 10 ^ digits_val ep else mant * 10 ^ digits_val ep)
      in if ip = [] \<or> (length ip > 1 \<and> hd ip = CHR ''0'') then None
         else if has_frac \<and> fp = [] then None
         else if has_exp \<and> ep = [] then None
         else Some (if neg then - scaled else scaled, s6))"

text \<open>Setting a property: a repeated key keeps its place and takes the later value.\<close>

fun obj_set :: "(string \<times> jsval) list \<Rightarrow> string \<Rightarrow> jsval \<Rightarrow> (string \<times> jsval) list" where
  "obj_set [] k v = [(k, v)]"
| "obj_set ((k', v') # kvs) k v = (if k' = k then (k, v) # kvs else (k', v') # obj_set kvs k v)"

text \<open>
  Values, array elements and object members. Each body takes the parsers of the nested
  calls as arguments; \<open>parse_value\<close>, \<open>parse_elements\<close> and \<open>parse_members\<close> tie them
  together. Their first argument bounds the depth of the nested calls; \<open>JSON_parse\<close>
  starts from the length of the input, since every nested call is paid for by at least
  one character of it.
\<close>

type_synonym 'a partial_parser = "string \<Rightarrow> 'a \<Rightarrow> ('a \<times> string) option"

definition value_body ::
  "jsval list partial_parser \<Rightarrow> (string \<times> jsval) list partial_parser \<Rightarrow> string \<Rightarrow>
   (jsval \<times> string) option" where
  "value_body elements members s =
     (case s of
        [] \<Rightarrow> None
      | c # cs \<Rightarrow>
          if c = CHR ''['' then
            (case skip_ws cs of
               [] \<Rightarrow> None
             | d # ds \<Rightarrow>
                 if d = CHR '']'' then Some (JArr [], ds)
                 else (case elements (d # ds) [] of
                         None \<Rightarrow> None
                       | Some (xs, rest) \<Rightarrow> Some (JArr xs, rest)))
          else if c = CHR ''{'' then
            (case skip_ws cs of
               [] \<Rightarrow> None
             | d # ds \<Rightarrow>
                 if d = CHR ''}'' then Some (JObj [], ds)
                 else (case members (d # ds) [] of
                         None \<Rightarrow> None
                       | Some (kvs, rest) \<Rightarrow> Some (JObj kvs, rest)))
          else if c = dquote then
            (case parse_chars cs [] of
               None \<Rightarrow> None
             | Some (str, rest) \<Rightarrow> Some (JStr str, rest))
          else if take 4 s = ''true'' then Some (JBool True, drop 4 s)
          else if take 5 s = ''false'' then Some (JBool False, drop 5 s)
          else if take 4 s = ''null'' then Some (JNull, drop 4 s)
          else (case parse_number s of
                  None \<Rightarrow> None
                | Some (q, rest) \<Rightarrow> Some (JNum q, rest)))"

definition elements_body ::
  "(string \<Rightarrow> (jsval \<times> string) option) \<Rightarrow> jsval list partial_parser \<Rightarrow>
   jsval list partial_parser" where
  "elements_body val elements s acc =
     (case val s of
        None \<Rightarrow> None
      | Some (v, rest) \<Rightarrow>
          (case skip_ws rest of
             [] \<Rightarrow> None
           | d # ds \<Rightarrow>
               if d = CHR '','' then elements (skip_ws ds) (acc @ [v])
               else if d = CHR '']'' then Some (acc @ [v], ds)
               else None))"

definition members_body ::
  "(string \<Rightarrow> (jsval \<times> string) option) \<Rightarrow> (string \<times> jsval) list partial_parser \<Rightarrow>
   (string \<times> jsval) list partial_parser" where
  "members_body val members s acc =
     (case s of
        [] \<Rightarrow> None
      | c # cs \<Rightarrow>
          if c \<noteq> dquote then None
          else (case parse_chars cs [] of
                  None \<Rightarrow> None
                | Some (k, rest) \<Rightarrow>
                    (case skip_ws rest of
                       [] \<Rightarrow> None
                     | d # ds \<Rightarrow>
                         if d \<noteq> CHR '':'' then None
                         else (case val (skip_ws ds) of
                                 None \<Rightarrow> None
                               | Some (v, rest2) \<Rightarrow>
                                   (case skip_ws rest2 of
                                      [] \<Rightarrow> None
                                    | e # es \<Rightarrow>
                                        if e = CHR '','' then
                                          members (skip_ws es) (obj_set acc k v)
                                        else if e = CHR ''}'' then Some (obj_set acc k v, es)
                                        else None)))))"

fun parse_value :: "nat \<Rightarrow> string \<Rightarrow> (jsval \<times> string) option"
  and parse_elements :: "nat \<Rightarrow> jsval list partial_parser"
  and parse_members :: "nat \<Rightarrow> (string \<times> jsval) list partial_parser"
where
  "parse_value 0 s = None"
| "parse_value (Suc n) s = value_body (parse_elements n) (parse_members n) s"
| "parse_elements 0 s acc = None"
| "parse_elements (Suc n) s acc = elements_body (parse_value n) (parse_elements n) s acc"
| "parse_members 0 s acc = None"
| "parse_members (Suc n) s acc = members_body (parse_value n) (parse_members n) s acc"

definition JSON_parse :: json_parser where
  "JSON_parse s =
     (case parse_value (Suc (length s)) (skip_ws s) of
        None \<Rightarrow> Inl SyntaxError
      | Some (v, rest) \<Rightarrow> if skip_ws rest = [] then Inr v else Inl SyntaxError)"

section \<open>The receipt matcher\<close>

text \<open>
  A candidate record as \<^verbatim>\<open>parseZapReceipt\<close> reads it: the event may be null, its
  \<^verbatim>\<open>tags\<close> may be absent, and a tag is an array of strings (the source annotates
  \<^verbatim>\<open>t: string[]\<close>) of any length.
\<close>

datatype nostr_event = NullEvent | NostrEvent "string list list option"

record zap_receipt =
  senderPubkey :: jsval
  recipientPubkey :: string
  eventId :: "string option"
  comment :: jsval

text \<open>\<^verbatim>\<open>event.tags?.find((t) => t[0] === key)\<close>, and \<^verbatim>\<open>tag?.[1]\<close>.\<close>

definition find_tag :: "string list list option \<Rightarrow> string \<Rightarrow> string list option" where
  "find_tag ts key =
     (case ts of
        None \<Rightarrow> None
      | Some l \<Rightarrow> List.find (\<lambda>t. case t of [] \<Rightarrow> False | k # rest \<Rightarrow> k = key) l)"

definition tag_value :: "string list option \<Rightarrow> string option" where
  "tag_value t = (case t of Some (k # v # rest) \<Rightarrow> Some v | _ \<Rightarrow> None)"

text \<open>
  The body of the outer \<^verbatim>\<open>try\<close>: \<open>Inl\<close> is an exception that escapes it, \<open>Inr None\<close> is
  \<^verbatim>\<open>return null\<close>. The inner \<^verbatim>\<open>try\<close> around \<^verbatim>\<open>JSON.parse\<close> returns null itself.
\<close>

definition parseZapReceipt_try ::
  "json_parser \<Rightarrow> nostr_event \<Rightarrow> string \<Rightarrow> exn + zap_receipt option" where
  "parseZapReceipt_try parse event invoice =
     (case event of
        NullEvent \<Rightarrow> Inl TypeError
      | NostrEvent ts \<Rightarrow>
          (case tag_value (find_tag ts ''bolt11'') of
             None \<Rightarrow> Inr None
           | Some bolt11 \<Rightarrow>
               if bolt11 = [] then Inr None
               else if bolt11 \<noteq> invoice then Inr None
               else
                 (case tag_value (find_tag ts ''description'') of
                    None \<Rightarrow> Inr None
                  | Some description \<Rightarrow>
                      if description = [] then Inr None
                      else
                        (case parse description of
                           Inl e \<Rightarrow> Inr None
                         | Inr zapRequest \<Rightarrow>
                             (case get_prop zapRequest ''kind'' of
                                Inl e \<Rightarrow> Inl e
                              | Inr kind \<Rightarrow>
                                  if kind \<noteq> JNum 9734 then Inr None
                                  else
                                    (case tag_value (find_tag ts ''p'') of
                                       None \<Rightarrow> Inr None
                                     | Some recipient \<Rightarrow>
                                         if recipient = [] then Inr None
                                         else
                                           (case get_prop zapRequest ''pubkey'' of
                                              Inl e \<Rightarrow> Inl e
                                            | Inr sender \<Rightarrow>
                                                if \<not> truthy sender then Inr None
                                                else
                                                  (case get_prop zapRequest ''content'' of
                                                     Inl e \<Rightarrow> Inl e
                                                   | Inr content \<Rightarrow>
                                                       Inr (Some
                                                         \<lparr>senderPubkey = sender,
                                                          recipientPubkey = recipient,
                                                          eventId = tag_value (find_tag ts ''e''),
                                                          comment =
                                                            (if truthy content then content
                                                             else JStr [])\<rparr>)))))))))"

text \<open>The outer \<^verbatim>\<open>catch\<close> logs the error and returns null.\<close>

definition parseZapReceipt ::
  "json_parser \<Rightarrow> nostr_event \<Rightarrow> string \<Rightarrow> exn + zap_receipt option" where
  "parseZapReceipt parse event invoice =
     (case parseZapReceipt_try parse event invoice of
        Inl e \<Rightarrow> Inr None
      | Inr r \<Rightarrow> Inr r)"

section \<open>The multi-relay query\<close>

text \<open>
  \<^verbatim>\<open>fetchZapReceiptForInvoice\<close> runs on the JavaScript event loop: its state changes
  only inside callbacks (a connection settling, a relay message, a timer), each of
  which runs to completion, and the promise reactions it has queued run before the
  next callback. The model is the state the closures share, one handler per callback,
  and the reaction of \<^verbatim>\<open>Promise.all\<close> after every handler.
\<close>

datatype promise = Pending | Resolved "zap_receipt option" | Rejected exn

record sub_filter =
  kinds :: "nat list"
  p_tag :: "string option list"
  limit :: nat

text \<open>
  One relay's branch: \<open>connecting\<close> while \<^verbatim>\<open>await relay.connect()\<close> is pending,
  \<open>connected\<close> once it has resolved (the function never calls \<^verbatim>\<open>relay.close()\<close>),
  \<open>sub_open\<close> from \<^verbatim>\<open>relay.subscribe\<close> to \<^verbatim>\<open>sub.close()\<close>, \<open>relay_done\<close> once the
  branch's promise in \<^verbatim>\<open>relayPromises\<close> is resolved.
\<close>

record relay_branch =
  url :: string
  connecting :: bool
  connected :: bool
  subscription :: "sub_filter option"
  sub_open :: bool
  eventCount :: nat
  relay_done :: bool

datatype timer = RelayTimer nat | OverallTimer

datatype action =
    ConnectOk nat
  | ConnectFail nat
  | OnEvent nat nostr_event
  | OnEose nat
  | Fire timer

record query =
  q_invoice :: string
  q_recipientPubkey :: "string option"
  zapReceipt :: "zap_receipt option"
  completedRelays :: nat
  totalRelays :: nat
  relays :: "relay_branch list"
  timers :: "(nat \<times> timer) list"
  now :: nat
  outcome :: promise

definition upd_relay :: "nat \<Rightarrow> (relay_branch \<Rightarrow> relay_branch) \<Rightarrow> query \<Rightarrow> query" where
  "upd_relay i f s = s\<lparr>relays := (relays s)[i := f (relays s ! i)]\<rparr>"

text \<open>\<^verbatim>\<open>resolve(v)\<close> of the outer promise: only the first call has an effect.\<close>

definition resolve :: "zap_receipt option \<Rightarrow> query \<Rightarrow> query" where
  "resolve v s = (if outcome s = Pending then s\<lparr>outcome := Resolved v\<rparr> else s)"

definition resolveRelay :: "nat \<Rightarrow> query \<Rightarrow> query" where
  "resolveRelay i s = upd_relay i (\<lambda>b. b\<lparr>relay_done := True\<rparr>) s"

definition sub_close :: "nat \<Rightarrow> query \<Rightarrow> query" where
  "sub_close i s = upd_relay i (\<lambda>b. b\<lparr>sub_open := False\<rparr>) s"

definition setTimeout :: "timer \<Rightarrow> nat \<Rightarrow> query \<Rightarrow> query" where
  "setTimeout tm delay s = s\<lparr>timers := timers s @ [(now s + delay, tm)]\<rparr>"

text \<open>
  \<^verbatim>\<open>await relay.connect()\<close> resolved: the branch subscribes with its filter and sets
  its 5 second timer.
\<close>

definition on_connect_ok :: "nat \<Rightarrow> query \<Rightarrow> query" where
  "on_connect_ok i s =
     setTimeout (RelayTimer i) 5000
       (upd_relay i
          (\<lambda>b. b\<lparr>connecting := False, connected := True,
                  subscription := Some \<lparr>kinds = [9735], p_tag = [q_recipientPubkey s], limit = 50\<rparr>,
                  sub_open := True\<rparr>) s)"

text \<open>
  \<^verbatim>\<open>new RelayFactory(url)\<close> or \<^verbatim>\<open>relay.connect()\<close> threw: the \<^verbatim>\<open>catch\<close> logs, and the
  async function returns, which resolves the branch's promise.
\<close>

definition on_connect_fail :: "nat \<Rightarrow> query \<Rightarrow> query" where
  "on_connect_fail i s = upd_relay i (\<lambda>b. b\<lparr>connecting := False, relay_done := True\<rparr>) s"

text \<open>
  Before it stores a receipt, \<^verbatim>\<open>onevent\<close> logs it, with
  \<^verbatim>\<open>${parsed.senderPubkey.slice(0, 16)}\<close> and \<^verbatim>\<open>${parsed.comment || 'none'}\<close>. The
  sender is whatever the request's \<^verbatim>\<open>pubkey\<close> is: \<^verbatim>\<open>slice\<close> is a method of strings and
  arrays only, so the call throws a TypeError on any other value. A template literal
  converts its value to a string, which throws on an object with a property
  \<^verbatim>\<open>toString\<close> of its own (in a parsed JSON value it is never a function), also as an
  element of an array. \<open>logs_receipt\<close> holds when the log lines run through.
\<close>

fun stringifies :: "jsval \<Rightarrow> bool" where
  "stringifies (JObj kvs) = (map_of kvs ''toString'' = None)"
| "stringifies (JArr xs) = list_all stringifies xs"
| "stringifies v = True"

definition slice16 :: "jsval \<Rightarrow> exn + jsval" where
  "slice16 v =
     (case v of
        JStr s \<Rightarrow> Inr (JStr (take 16 s))
      | JArr xs \<Rightarrow> Inr (JArr (take 16 xs))
      | _ \<Rightarrow> Inl TypeError)"

definition logs_receipt :: "zap_receipt \<Rightarrow> bool" where
  "logs_receipt parsed =
     ((case slice16 (senderPubkey parsed) of Inl e \<Rightarrow> False | Inr v \<Rightarrow> stringifies v) \<and>
      stringifies (comment parsed))"

text \<open>
  \<^verbatim>\<open>onevent\<close>: the event is counted (the first event of a relay is also logged, which
  reads \<^verbatim>\<open>event?.tags\<close> and changes nothing), and while no receipt is stored the
  matcher is asked. When a log line throws, the callback ends there, before the
  receipt is stored. \<^verbatim>\<open>oneose\<close> and the two timers follow the source line by line.
\<close>

definition onevent :: "json_parser \<Rightarrow> nat \<Rightarrow> nostr_event \<Rightarrow> query \<Rightarrow> query" where
  "onevent parse i event s =
     (let s1 = upd_relay i (\<lambda>b. b\<lparr>eventCount := eventCount b + 1\<rparr>) s in
      if zapReceipt s1 = None then
        (case parseZapReceipt parse event (q_invoice s1) of
           Inr (Some parsed) \<Rightarrow>
             if logs_receipt parsed
             then resolveRelay i (sub_close i (s1\<lparr>zapReceipt := Some parsed\<rparr>))
             else s1
         | _ \<Rightarrow> s1)
      else s1)"

definition oneose :: "nat \<Rightarrow> query \<Rightarrow> query" where
  "oneose i s =
     (let s1 = sub_close i s;
          s2 = s1\<lparr>completedRelays := completedRelays s1 + 1\<rparr>
      in if completedRelays s2 \<ge> totalRelays s2 \<or> zapReceipt s2 \<noteq> None
         then resolveRelay i s2 else s2)"

definition relay_timeout :: "nat \<Rightarrow> query \<Rightarrow> query" where
  "relay_timeout i s = resolveRelay i (sub_close i s)"

definition overall_timeout :: "query \<Rightarrow> query" where
  "overall_timeout s = (if zapReceipt s = None then resolve None s else s)"

text \<open>
  \<^verbatim>\<open>Promise.all(relayPromises).then(...)\<close>: once every branch's promise is resolved the
  reaction calls \<^verbatim>\<open>resolve(zapReceipt)\<close>. No branch's promise can reject, so the
  \<^verbatim>\<open>.catch\<close> never runs.
\<close>

definition promise_all :: "query \<Rightarrow> query" where
  "promise_all s = (if list_all relay_done (relays s) then resolve (zapReceipt s) s else s)"

text \<open>
  Modelled from the spec: the relay object (\<^verbatim>\<open>RelayFactory\<close>, of the repository's
  \<^verbatim>\<open>nTools\<close> module, which is not among the sources) offers "a connect operation (async,
  may fail), a subscribe operation [...] returning a handle that delivers zero or more
  records followed by an end-of-initial-results signal, and a close operation". So the
  connection of a branch settles once, while the branch is connecting, and a
  subscription calls \<^verbatim>\<open>onevent\<close> and \<^verbatim>\<open>oneose\<close> only while it is open.
\<close>

definition may_settle :: "nat \<Rightarrow> query \<Rightarrow> bool" where
  "may_settle i s = (i < length (relays s) \<and> connecting (relays s ! i))"

definition may_deliver :: "nat \<Rightarrow> query \<Rightarrow> bool" where
  "may_deliver i s = (i < length (relays s) \<and> sub_open (relays s ! i))"

text \<open>A timer set with \<^verbatim>\<open>setTimeout\<close> fires once (the source clears none).\<close>

definition pending_timer :: "timer \<Rightarrow> query \<Rightarrow> bool" where
  "pending_timer tm s = (tm \<in> snd ` set (timers s))"

text \<open>One callback; an action that cannot occur leaves the state as it is.\<close>

definition handle :: "json_parser \<Rightarrow> action \<Rightarrow> query \<Rightarrow> query" where
  "handle parse a s =
     (case a of
        ConnectOk i \<Rightarrow> if may_settle i s then on_connect_ok i s else s
      | ConnectFail i \<Rightarrow> if may_settle i s then on_connect_fail i s else s
      | OnEvent i event \<Rightarrow> if may_deliver i s then onevent parse i event s else s
      | OnEose i \<Rightarrow> if may_deliver i s then oneose i s else s
      | Fire tm \<Rightarrow>
          if pending_timer tm s then
            (let s1 = s\<lparr>timers := filter (\<lambda>x. snd x \<noteq> tm) (timers s)\<rparr> in
             case tm of
               RelayTimer i \<Rightarrow> relay_timeout i s1
             | OverallTimer \<Rightarrow> overall_timeout s1)
          else s)"

definition step :: "json_parser \<Rightarrow> action \<Rightarrow> query \<Rightarrow> query" where
  "step parse a s = promise_all (handle parse a s)"

definition run :: "json_parser \<Rightarrow> action list \<Rightarrow> query \<Rightarrow> query" where
  "run parse tr s = fold (step parse) tr s"

text \<open>
  The synchronous part of the call: every branch starts connecting, the reaction of
  \<^verbatim>\<open>Promise.all\<close> is registered (and runs at once on an empty list), and the overall
  10 second timer is set.
\<close>

definition new_branch :: "string \<Rightarrow> relay_branch" where
  "new_branch u =
     \<lparr>url = u, connecting = True, connected = False, subscription = None, sub_open = False,
      eventCount = 0, relay_done = False\<rparr>"

definition start :: "string \<Rightarrow> string option \<Rightarrow> string list \<Rightarrow> query" where
  "start invoice recipient relayUrls =
     promise_all
       \<lparr>q_invoice = invoice, q_recipientPubkey = recipient, zapReceipt = None,
        completedRelays = 0, totalRelays = length relayUrls,
        relays = map new_branch relayUrls,
        timers = [(10000, OverallTimer)], now = 0, outcome = Pending\<rparr>"

definition default_relayUrls :: "string list" where
  "default_relayUrls =
     [''wss://relay.primal.net'', ''wss://relay.damus.io'', ''wss://relay.nostr.band'',
      ''wss://nos.lol'']"

text \<open>The query after the callbacks \<open>tr\<close>; its \<open>outcome\<close> is the returned promise.\<close>

definition fetchZapReceiptForInvoice ::
  "json_parser \<Rightarrow> string \<Rightarrow> string option \<Rightarrow> string list \<Rightarrow> action list \<Rightarrow> query" where
  "fetchZapReceiptForInvoice parse invoice recipient relayUrls tr =
     run parse tr (start invoice recipient relayUrls)"

section \<open>Timers on a clock\<close>

text \<open>
  A schedule gives the relay callbacks with the time (in milliseconds after the call)
  at which each runs, in order of time. Before a callback runs, and up to the time the
  state is observed, every timer that is due fires, the earliest first (\<open>sort_key\<close> is
  stable, so timers due together fire in the order they were set).
\<close>

definition due_timers :: "nat \<Rightarrow> query \<Rightarrow> (nat \<times> timer) list" where
  "due_timers t s = sort_key fst (filter (\<lambda>x. fst x \<le> t) (timers s))"

definition fire_at :: "json_parser \<Rightarrow> nat \<times> timer \<Rightarrow> query \<Rightarrow> query" where
  "fire_at parse x s = step parse (Fire (snd x)) (s\<lparr>now := fst x\<rparr>)"

definition advance :: "json_parser \<Rightarrow> nat \<Rightarrow> query \<Rightarrow> query" where
  "advance parse t s = (fold (fire_at parse) (due_timers t s) s)\<lparr>now := t\<rparr>"

definition deliver :: "json_parser \<Rightarrow> nat \<times> action \<Rightarrow> query \<Rightarrow> query" where
  "deliver parse x s = step parse (snd x) (advance parse (fst x) s)"

definition state_at :: "json_parser \<Rightarrow> nat \<Rightarrow> (nat \<times> action) list \<Rightarrow> query \<Rightarrow> query" where
  "state_at parse T sched s =
     advance parse T (fold (deliver parse) (filter (\<lambda>x. fst x \<le> T) sched) s)"

text \<open>The query \<open>T\<close> milliseconds after the call, under the schedule \<open>sched\<close>.\<close>

definition fetchZapReceiptForInvoice_at ::
  "json_parser \<Rightarrow> string \<Rightarrow> string option \<Rightarrow> string list \<Rightarrow> (nat \<times> action) list \<Rightarrow> nat \<Rightarrow>
   query" where
  "fetchZapReceiptForInvoice_at parse invoice recipient relayUrls sched T =
     state_at parse T sched (start invoice recipient relayUrls)"

section \<open>The batch query\<close>

text \<open>
  \<^verbatim>\<open>fetchZapReceiptsForInvoices\<close> calls \<^verbatim>\<open>fetchZapReceiptForInvoice(invoice)\<close> for every
  invoice: the recipient argument is omitted (\<^verbatim>\<open>undefined\<close>, here \<open>None\<close>) and the relay
  list takes its default. \<open>traces ! i\<close> are the callbacks of the \<open>i\<close>-th query, and
  \<open>order\<close> is the order in which the queries resolve, which is the order of the calls of
  \<^verbatim>\<open>results.set\<close>. The result is \<open>None\<close> while \<^verbatim>\<open>await Promise.all(promises)\<close> is pending.
\<close>

definition batch_queries :: "json_parser \<Rightarrow> string list \<Rightarrow> action list list \<Rightarrow> query list" where
  "batch_queries parse invoices traces =
     map (\<lambda>(invoice, tr). fetchZapReceiptForInvoice parse invoice None default_relayUrls tr)
       (zip invoices traces)"

definition fetchZapReceiptsForInvoices ::
  "json_parser \<Rightarrow> string list \<Rightarrow> action list list \<Rightarrow> nat list \<Rightarrow> (string \<rightharpoonup> zap_receipt) option"
  where
  "fetchZapReceiptsForInvoices parse invoices traces order =
     (let queries = batch_queries parse invoices traces in
      if list_all (\<lambda>q. outcome q \<noteq> Pending) queries then
        Some (fold (\<lambda>i results.
                      case outcome (queries ! i) of
                        Resolved (Some receipt) \<Rightarrow> results(invoices ! i \<mapsto> receipt)
                      | _ \<Rightarrow> results)
                order Map.empty)
      else None)"

section \<open>Notions of the specification\<close>

text \<open>
  \<open>first_value ts key v\<close>: the first tag of \<open>ts\<close> whose key is \<open>key\<close> carries the value
  \<open>v\<close>.
\<close>

definition keyed :: "string \<Rightarrow> string list \<Rightarrow> bool" where
  "keyed key t = (case t of [] \<Rightarrow> False | k # rest \<Rightarrow> k = key)"

definition first_value :: "string list list \<Rightarrow> string \<Rightarrow> string \<Rightarrow> bool" where
  "first_value ts key v =
     (\<exists>pre rest post. ts = pre @ (key # v # rest) # post \<and> \<not> list_ex (keyed key) pre)"

text \<open>
  \<open>has_tag ts key ok\<close>: some tag of \<open>ts\<close> has the key \<open>key\<close> and a value that \<open>ok\<close> accepts.
  \<open>claimed_match\<close> is the condition under which a record is said to match when "has a
  tag" is read as "some tag": a bolt11 tag whose value equals the fingerprint, a
  description tag that parses as JSON with kind 9734 and a non-empty pubkey, and a
  \<^verbatim>\<open>p\<close> tag.
\<close>

definition has_tag :: "string list list \<Rightarrow> string \<Rightarrow> (string \<Rightarrow> bool) \<Rightarrow> bool" where
  "has_tag ts key ok = list_ex (\<lambda>t. case t of k # v # rest \<Rightarrow> k = key \<and> ok v | _ \<Rightarrow> False) ts"

definition kind_9734_with_pubkey :: "json_parser \<Rightarrow> string \<Rightarrow> bool" where
  "kind_9734_with_pubkey parse d =
     (case parse d of
        Inl e \<Rightarrow> False
      | Inr z \<Rightarrow>
          get_prop z ''kind'' = Inr (JNum 9734) \<and>
          (case get_prop z ''pubkey'' of Inl e \<Rightarrow> False | Inr sender \<Rightarrow> truthy sender))"

definition claimed_match :: "json_parser \<Rightarrow> string list list \<Rightarrow> string \<Rightarrow> bool" where
  "claimed_match parse ts fingerprint =
     (has_tag ts ''bolt11'' (\<lambda>v. v = fingerprint) \<and>
      has_tag ts ''description'' (kind_9734_with_pubkey parse) \<and>
      list_ex (keyed ''p'') ts)"

text \<open>
  A well-formed record: its first bolt11, description and \<^verbatim>\<open>p\<close> tags carry non-empty
  values, and the description is a kind 9734 request with a non-empty pubkey.
\<close>

definition well_formed :: "json_parser \<Rightarrow> string list list \<Rightarrow> bool" where
  "well_formed parse ts =
     (\<exists>b d p. first_value ts ''bolt11'' b \<and> b \<noteq> [] \<and>
        first_value ts ''description'' d \<and> d \<noteq> [] \<and> kind_9734_with_pubkey parse d \<and>
        first_value ts ''p'' p \<and> p \<noteq> [])"

text \<open>
  The receipt a callback accepts, when no receipt is stored yet: an open subscription
  delivers a record, the matcher gives a receipt for it, and the log lines run through.
  Then the receipts that a whole sequence of callbacks accepts, in order, and the number
  of callbacks that change the stored receipt.
\<close>

definition delivered_match :: "json_parser \<Rightarrow> action \<Rightarrow> query \<Rightarrow> zap_receipt option" where
  "delivered_match parse a s =
     (case a of
        OnEvent i event \<Rightarrow>
          if may_deliver i s then
            (case parseZapReceipt parse event (q_invoice s) of
               Inr (Some r) \<Rightarrow> if logs_receipt r then Some r else None
             | _ \<Rightarrow> None)
          else None
      | _ \<Rightarrow> None)"

fun matches :: "json_parser \<Rightarrow> action list \<Rightarrow> query \<Rightarrow> zap_receipt list" where
  "matches parse [] s = []"
| "matches parse (a # tr) s =
     (case delivered_match parse a s of None \<Rightarrow> [] | Some r \<Rightarrow> [r]) @
     matches parse tr (step parse a s)"

fun writes :: "json_parser \<Rightarrow> action list \<Rightarrow> query \<Rightarrow> nat" where
  "writes parse [] s = 0"
| "writes parse (a # tr) s =
     (if zapReceipt (step parse a s) = zapReceipt s then 0 else 1) +
     writes parse tr (step parse a s)"

text \<open>
  A callback of a peer that delivers no record: its connection settling, or the end of
  its stored events.
\<close>

definition delivers_nothing :: "action \<Rightarrow> bool" where
  "delivers_nothing a = (case a of OnEvent i event \<Rightarrow> False | Fire tm \<Rightarrow> False | _ \<Rightarrow> True)"

section \<open>Fixtures\<close>

text \<open>The relay-1 record of the specification's example, and two variants of it.\<close>

definition fixture_invoice :: string where
  "fixture_invoice = ''lnbc100n1p...''"

definition fixture_description :: string where
  \<open>fixture_description =
     ''{"kind":9734,"pubkey":"sender1","tags":[["p","abc123..."]],"content":"gm"}''\<close>

definition fixture_request :: jsval where
  "fixture_request =
     JObj [(''kind'', JNum 9734), (''pubkey'', JStr ''sender1''),
           (''tags'', JArr [JArr [JStr ''p'', JStr ''abc123...'']]), (''content'', JStr ''gm'')]"

definition fixture_tags :: "string list list" where
  "fixture_tags =
     [[''bolt11'', fixture_invoice], [''description'', fixture_description], [''p'', ''abc123...'']]"

definition fixture_receipt :: zap_receipt where
  "fixture_receipt =
     \<lparr>senderPubkey = JStr ''sender1'', recipientPubkey = ''abc123...'', eventId = None,
      comment = JStr ''gm''\<rparr>"

definition cx_empty_p :: "string list list" where
  "cx_empty_p =
     [[''bolt11'', fixture_invoice], [''description'', fixture_description], [''p'', []]]"

definition cx_second_bolt11 :: "string list list" where
  "cx_second_bolt11 =
     [[''bolt11'', ''lnbc200n1p...''], [''bolt11'', fixture_invoice],
      [''description'', fixture_description], [''p'', ''abc123...'']]"

text \<open>
  A record like the fixture whose request has the number 123 as its pubkey, and the
  receipt the matcher gives for it.
\<close>

definition numeric_sender_description :: string where
  \<open>numeric_sender_description = ''{"kind":9734,"pubkey":123,"content":"gm"}''\<close>

definition numeric_sender_tags :: "string list list" where
  "numeric_sender_tags =
     [[''bolt11'', fixture_invoice], [''description'', numeric_sender_description],
      [''p'', ''abc123...'']]"

definition numeric_sender_receipt :: zap_receipt where
  "numeric_sender_receipt =
     \<lparr>senderPubkey = JNum 123, recipientPubkey = ''abc123...'', eventId = None,
      comment = JStr ''gm''\<rparr>"

text \<open>Two relays, and three schedules of their callbacks.\<close>

definition two_relays :: "string list" where
  "two_relays = [''wss://relay-A'', ''wss://relay-B'']"

definition race_schedule :: "(nat \<times> action) list" where
  "race_schedule =
     [(0, ConnectOk 0), (0, ConnectOk 1),
      (2000, OnEvent 0 (NostrEvent (Some fixture_tags))),
      (4000, OnEvent 1 (NostrEvent (Some fixture_tags)))]"

definition drained_schedule :: "(nat \<times> action) list" where
  "drained_schedule = [(0, ConnectOk 0), (0, ConnectOk 1), (100, OnEose 0), (200, OnEose 1)]"

definition late_schedule :: "(nat \<times> action) list" where
  "late_schedule = [(0, ConnectOk 0), (6000, ConnectOk 1)]"

section \<open>Invariants\<close>

text \<open>
  What holds of every branch of a query after any callbacks, and what holds of its
  timers and its promise.
\<close>

definition branch_inv :: "query \<Rightarrow> bool" where
  "branch_inv s =
     ((\<forall>j<length (relays s).
         (connecting (relays s ! j) \<or> connected (relays s ! j) \<or> relay_done (relays s ! j)) \<and>
         (sub_open (relays s ! j) \<longrightarrow> connected (relays s ! j)) \<and>
         (\<forall>f. subscription (relays s ! j) = Some f \<longrightarrow>
              f = \<lparr>kinds = [9735], p_tag = [q_recipientPubkey s], limit = 50\<rparr>)) \<and>
      (zapReceipt s \<noteq> None \<longrightarrow> (\<exists>j<length (relays s). connected (relays s ! j))))"

definition timed_inv :: "query \<Rightarrow> bool" where
  "timed_inv s =
     ((pending_timer OverallTimer s \<or> zapReceipt s \<noteq> None \<or> outcome s \<noteq> Pending) \<and>
      (\<forall>d. (d, OverallTimer) \<in> set (timers s) \<longrightarrow> d = 10000) \<and>
      (\<forall>r. outcome s = Resolved (Some r) \<longrightarrow> zapReceipt s = Some r) \<and>
      (\<forall>e. outcome s \<noteq> Rejected e))"

section \<open>The matcher: lemmas\<close>

lemma find_tag_Nil: "find_tag (Some []) key = None"
  by (simp add: find_tag_def)

lemma find_tag_Cons:
  "find_tag (Some (t # ts)) key = (if keyed key t then Some t else find_tag (Some ts) key)"
  by (simp add: find_tag_def keyed_def)

lemma first_value_Nil: "\<not> first_value [] key v"
  by (simp add: first_value_def)

lemma first_value_Cons:
  "first_value (t # ts) key v =
     (if keyed key t then (\<exists>rest. t = key # v # rest) else first_value ts key v)"
proof (cases "keyed key t")
  case True
  have "first_value (t # ts) key v = (\<exists>rest. t = key # v # rest)"
  proof
    assume "first_value (t # ts) key v"
    then obtain pre rest post where
      eq: "t # ts = pre @ (key # v # rest) # post" and no: "\<not> list_ex (keyed key) pre"
      by (auto simp: first_value_def)
    show "\<exists>rest. t = key # v # rest"
    proof (cases pre)
      case Nil
      with eq show ?thesis by simp
    next
      case (Cons u us)
      with eq have "u = t" by simp
      with Cons no True show ?thesis by simp
    qed
  next
    assume "\<exists>rest. t = key # v # rest"
    then obtain rest where "t = key # v # rest" ..
    then have "t # ts = [] @ (key # v # rest) # ts \<and> \<not> list_ex (keyed key) []" by simp
    then show "first_value (t # ts) key v"
      unfolding first_value_def by blast
  qed
  with True show ?thesis by simp
next
  case False
  have "first_value (t # ts) key v = first_value ts key v"
  proof
    assume "first_value (t # ts) key v"
    then obtain pre rest post where
      eq: "t # ts = pre @ (key # v # rest) # post" and no: "\<not> list_ex (keyed key) pre"
      by (auto simp: first_value_def)
    show "first_value ts key v"
    proof (cases pre)
      case Nil
      with eq have "t = key # v # rest" by simp
      with False show ?thesis by (simp add: keyed_def)
    next
      case (Cons u us)
      with eq have "ts = us @ (key # v # rest) # post" by simp
      moreover from Cons no have "\<not> list_ex (keyed key) us" by simp
      ultimately show ?thesis unfolding first_value_def by blast
    qed
  next
    assume "first_value ts key v"
    then obtain pre rest post where
      eq: "ts = pre @ (key # v # rest) # post" and no: "\<not> list_ex (keyed key) pre"
      by (auto simp: first_value_def)
    from eq have "t # ts = (t # pre) @ (key # v # rest) # post" by simp
    moreover from no False have "\<not> list_ex (keyed key) (t # pre)" by simp
    ultimately show "first_value (t # ts) key v" unfolding first_value_def by blast
  qed
  with False show ?thesis by simp
qed

lemma tag_value_Some: "(tag_value (Some t) = Some v) = (\<exists>k rest. t = k # v # rest)"
  by (auto simp: tag_value_def split: list.splits)

lemma tag_value_find_tag:
  "(tag_value (find_tag (Some ts) key) = Some v) = first_value ts key v"
proof (induction ts)
  case Nil
  show ?case by (simp add: find_tag_Nil first_value_Nil tag_value_def)
next
  case (Cons t ts)
  show ?case
  proof (cases "keyed key t")
    case True
    then have "(\<exists>k rest. t = k # v # rest) = (\<exists>rest. t = key # v # rest)"
      by (auto simp: keyed_def)
    with True show ?thesis
      by (simp add: find_tag_Cons first_value_Cons tag_value_Some)
  next
    case False
    with Cons show ?thesis by (simp add: find_tag_Cons first_value_Cons)
  qed
qed

lemma first_value_unique: "first_value ts key v \<Longrightarrow> first_value ts key w \<Longrightarrow> v = w"
  by (simp add: tag_value_find_tag [symmetric])

lemma tag_value_find_tag_None: "tag_value (find_tag None key) = None"
  by (simp add: find_tag_def tag_value_def)

lemma first_value_e: "(\<forall>v. (x = Some v) = first_value ts key v) = (x = tag_value (find_tag (Some ts) key))"
proof -
  have "(\<forall>v. (x = Some v) = first_value ts key v) =
        (\<forall>v. (x = Some v) = (tag_value (find_tag (Some ts) key) = Some v))"
    by (simp add: tag_value_find_tag)
  also have "\<dots> = (x = tag_value (find_tag (Some ts) key))"
    by (cases x; cases "tag_value (find_tag (Some ts) key)") auto
  finally show ?thesis .
qed

lemma parseZapReceipt_accepts:
  "(parseZapReceipt parse (NostrEvent (Some ts)) invoice = Inr (Some r)) =
     (\<exists>d z p sender content.
        first_value ts ''bolt11'' invoice \<and> invoice \<noteq> [] \<and>
        first_value ts ''description'' d \<and> d \<noteq> [] \<and> parse d = Inr z \<and>
        get_prop z ''kind'' = Inr (JNum 9734) \<and>
        first_value ts ''p'' p \<and> p \<noteq> [] \<and>
        get_prop z ''pubkey'' = Inr sender \<and> truthy sender \<and>
        get_prop z ''content'' = Inr content \<and>
        senderPubkey r = sender \<and> recipientPubkey r = p \<and>
        (\<forall>v. (eventId r = Some v) = first_value ts ''e'' v) \<and>
        comment r = (if truthy content then content else JStr []))"
  unfolding first_value_e
  unfolding tag_value_find_tag [symmetric]
  by (cases r) (auto simp: parseZapReceipt_def parseZapReceipt_try_def split: option.splits sum.splits if_splits)

lemma parseZapReceipt_total: "\<exists>r. parseZapReceipt parse event invoice = Inr r"
  by (simp add: parseZapReceipt_def split: sum.splits)

lemma parseZapReceipt_null: "parseZapReceipt parse NullEvent invoice = Inr None"
  by (simp add: parseZapReceipt_def parseZapReceipt_try_def)

lemma parseZapReceipt_no_tags: "parseZapReceipt parse (NostrEvent None) invoice = Inr None"
  by (simp add: parseZapReceipt_def parseZapReceipt_try_def tag_value_find_tag_None)

lemmas json_eval = JSON_parse_def value_body_def elements_body_def members_body_def
  parse_number_def dquote_def backslash_def is_ws_def is_digit_def digits_val_def
  unescape_def hex_val_def utf8_def Let_def

lemma JSON_parse_fixture: "JSON_parse fixture_description = Inr fixture_request"
  by (simp add: fixture_description_def fixture_request_def json_eval)

lemma fixture_description_nonempty: "fixture_description \<noteq> []"
  by (simp add: fixture_description_def)

lemmas matcher_eval = parseZapReceipt_def parseZapReceipt_try_def find_tag_def tag_value_def
  JSON_parse_fixture fixture_request_def fixture_description_nonempty

lemma parseZapReceipt_fixture:
  "parseZapReceipt JSON_parse (NostrEvent (Some fixture_tags)) fixture_invoice = Inr (Some fixture_receipt)"
  by (simp add: matcher_eval fixture_tags_def fixture_receipt_def fixture_invoice_def)

lemma JSON_parse_numeric_sender:
  "JSON_parse numeric_sender_description =
     Inr (JObj [(''kind'', JNum 9734), (''pubkey'', JNum 123), (''content'', JStr ''gm'')])"
  by (simp add: numeric_sender_description_def json_eval)

lemma parseZapReceipt_numeric_sender:
  "parseZapReceipt JSON_parse (NostrEvent (Some numeric_sender_tags)) fixture_invoice =
     Inr (Some numeric_sender_receipt)"
proof -
  have "numeric_sender_description \<noteq> []"
    by (simp add: numeric_sender_description_def)
  then show ?thesis
    by (simp add: parseZapReceipt_def parseZapReceipt_try_def find_tag_def tag_value_def
        JSON_parse_numeric_sender numeric_sender_tags_def numeric_sender_receipt_def
        fixture_invoice_def)
qed

text \<open>
  Claim C2, as the code has it. The matcher returns a receipt exactly when the first
  bolt11 tag of the record carries a non-empty value equal to the invoice, the first
  description tag carries a non-empty value that \<^verbatim>\<open>JSON.parse\<close> accepts and whose kind
  is 9734, the first \<^verbatim>\<open>p\<close> tag carries a non-empty value, and the pubkey of the parsed
  request is truthy. The receipt then has the request's pubkey as sender, the value of
  that \<^verbatim>\<open>p\<close> tag as recipient, the value of the first \<^verbatim>\<open>e\<close> tag (if it has one) as
  event id, and the request's content, or the empty string when the content is falsy,
  as comment. A null event and an event without tags are rejected. On the relay-1
  fixture the receipt is sender1, abc123..., no event id, gm.
\<close>

theorem C2_matcher_contract:
  "(parseZapReceipt parse (NostrEvent (Some ts)) invoice = Inr (Some r)) =
     (\<exists>d z p sender content.
        first_value ts ''bolt11'' invoice \<and> invoice \<noteq> [] \<and>
        first_value ts ''description'' d \<and> d \<noteq> [] \<and> parse d = Inr z \<and>
        get_prop z ''kind'' = Inr (JNum 9734) \<and>
        first_value ts ''p'' p \<and> p \<noteq> [] \<and>
        get_prop z ''pubkey'' = Inr sender \<and> truthy sender \<and>
        get_prop z ''content'' = Inr content \<and>
        senderPubkey r = sender \<and> recipientPubkey r = p \<and>
        (\<forall>v. (eventId r = Some v) = first_value ts ''e'' v) \<and>
        comment r = (if truthy content then content else JStr [])) \<and>
   parseZapReceipt parse NullEvent invoice = Inr None \<and>
   parseZapReceipt parse (NostrEvent None) invoice = Inr None \<and>
   parseZapReceipt JSON_parse (NostrEvent (Some fixture_tags)) fixture_invoice =
     Inr (Some \<lparr>senderPubkey = JStr ''sender1'', recipientPubkey = ''abc123...'',
                 eventId = None, comment = JStr ''gm''\<rparr>)"
  using parseZapReceipt_accepts [of parse ts invoice r] parseZapReceipt_null [of parse invoice]
    parseZapReceipt_no_tags [of parse invoice] parseZapReceipt_fixture
  by (simp only: fixture_receipt_def simp_thms)

lemma first_value_eval:
  "tag_value (find_tag (Some ts) key) = Some v \<Longrightarrow> first_value ts key v"
  by (simp add: tag_value_find_tag)

text \<open>
  The contract at a record with two \<^verbatim>\<open>e\<close> tags: the receipt carries the first one.
\<close>

theorem C2_matcher_contract_witness:
  "parseZapReceipt JSON_parse
     (NostrEvent (Some (fixture_tags @ [[''e'', ''note1''], [''e'', ''note2'']]))) fixture_invoice =
   Inr (Some \<lparr>senderPubkey = JStr ''sender1'', recipientPubkey = ''abc123...'',
               eventId = Some ''note1'', comment = JStr ''gm''\<rparr>)"
proof -
  let ?ts = "fixture_tags @ [[''e'', ''note1''], [''e'', ''note2'']]"
  let ?r = "\<lparr>senderPubkey = JStr ''sender1'', recipientPubkey = ''abc123...'',
             eventId = Some ''note1'', comment = JStr ''gm''\<rparr>"
  have b: "first_value ?ts ''bolt11'' fixture_invoice"
    by (rule first_value_eval) (simp add: find_tag_def tag_value_def fixture_tags_def)
  have d: "first_value ?ts ''description'' fixture_description"
    by (rule first_value_eval) (simp add: find_tag_def tag_value_def fixture_tags_def)
  have p: "first_value ?ts ''p'' ''abc123...''"
    by (rule first_value_eval) (simp add: find_tag_def tag_value_def fixture_tags_def)
  have e: "\<forall>v. (eventId ?r = Some v) = first_value ?ts ''e'' v"
    by (simp add: tag_value_find_tag [symmetric] find_tag_def tag_value_def fixture_tags_def)
  have n: "fixture_invoice \<noteq> [] \<and> fixture_description \<noteq> []"
    by (simp add: fixture_invoice_def fixture_description_def)
  have "\<exists>d z p sender content.
        first_value ?ts ''bolt11'' fixture_invoice \<and> fixture_invoice \<noteq> [] \<and>
        first_value ?ts ''description'' d \<and> d \<noteq> [] \<and> JSON_parse d = Inr z \<and>
        get_prop z ''kind'' = Inr (JNum 9734) \<and>
        first_value ?ts ''p'' p \<and> p \<noteq> [] \<and>
        get_prop z ''pubkey'' = Inr sender \<and> truthy sender \<and>
        get_prop z ''content'' = Inr content \<and>
        senderPubkey ?r = sender \<and> recipientPubkey ?r = p \<and>
        (\<forall>v. (eventId ?r = Some v) = first_value ?ts ''e'' v) \<and>
        comment ?r = (if truthy content then content else JStr [])"
    apply (rule exI [of _ fixture_description])
    apply (rule exI [of _ fixture_request])
    apply (rule exI [of _ "''abc123...''"])
    apply (rule exI [of _ "JStr ''sender1''"])
    apply (rule exI [of _ "JStr ''gm''"])
    using b d p e n by (simp add: JSON_parse_fixture) (simp add: fixture_request_def)
  with C2_matcher_contract [of JSON_parse ?ts fixture_invoice ?r] show ?thesis
    by blast
qed

lemmas claimed_eval = claimed_match_def has_tag_def kind_9734_with_pubkey_def keyed_def
  JSON_parse_fixture fixture_request_def

text \<open>
  Two records that satisfy the condition of claim C2 when "has a tag" means "some tag",
  and that the matcher rejects: one whose \<^verbatim>\<open>p\<close> tag has an empty value, and one whose
  second bolt11 tag, not its first, equals the invoice.
\<close>

theorem C2_counterexample:
  "claimed_match JSON_parse cx_empty_p fixture_invoice \<and>
   parseZapReceipt JSON_parse (NostrEvent (Some cx_empty_p)) fixture_invoice = Inr None \<and>
   claimed_match JSON_parse cx_second_bolt11 fixture_invoice \<and>
   parseZapReceipt JSON_parse (NostrEvent (Some cx_second_bolt11)) fixture_invoice = Inr None"
  by (simp add: claimed_eval matcher_eval cx_empty_p_def cx_second_bolt11_def fixture_invoice_def)

lemma get_prop_defined: "get_prop z k = Inr v \<Longrightarrow> \<exists>c. get_prop z k' = Inr c"
  by (cases z) auto

lemma well_formed_accepted:
  assumes wf: "well_formed parse ts" and b: "first_value ts ''bolt11'' b"
  shows "\<exists>r. parseZapReceipt parse (NostrEvent (Some ts)) b = Inr (Some r)"
proof -
  from wf obtain b' d p where
    b': "first_value ts ''bolt11'' b'" "b' \<noteq> []" and
    d: "first_value ts ''description'' d" "d \<noteq> []" "kind_9734_with_pubkey parse d" and
    p: "first_value ts ''p'' p" "p \<noteq> []"
    unfolding well_formed_def by blast
  from b b' have eq: "b' = b" by (blast intro: first_value_unique)
  from d(3) obtain z sender where
    z: "parse d = Inr z" "get_prop z ''kind'' = Inr (JNum 9734)"
       "get_prop z ''pubkey'' = Inr sender" "truthy sender"
    by (auto simp: kind_9734_with_pubkey_def split: sum.splits)
  from z(2) obtain content where c: "get_prop z ''content'' = Inr content"
    using get_prop_defined by blast
  let ?r = "\<lparr>senderPubkey = sender, recipientPubkey = p,
             eventId = tag_value (find_tag (Some ts) ''e''),
             comment = (if truthy content then content else JStr [])\<rparr>"
  have e: "\<forall>v. (eventId ?r = Some v) = first_value ts ''e'' v"
    by (simp add: tag_value_find_tag)
  have "parseZapReceipt parse (NostrEvent (Some ts)) b = Inr (Some ?r)"
    unfolding parseZapReceipt_accepts [of parse ts b ?r]
    apply (rule exI [of _ d], rule exI [of _ z], rule exI [of _ p], rule exI [of _ sender],
        rule exI [of _ content])
    using e b b' eq d z p c by simp
  then show ?thesis ..
qed

lemma accepted_fingerprint:
  assumes "parseZapReceipt parse event invoice = Inr (Some r)"
  shows "\<exists>ts. event = NostrEvent (Some ts) \<and> first_value ts ''bolt11'' invoice"
proof (cases event)
  case NullEvent
  with assms show ?thesis by (simp add: parseZapReceipt_null)
next
  case (NostrEvent tso)
  show ?thesis
  proof (cases tso)
    case None
    with NostrEvent assms show ?thesis by (simp add: parseZapReceipt_no_tags)
  next
    case (Some ts)
    with NostrEvent assms have "first_value ts ''bolt11'' invoice"
      by (auto simp: parseZapReceipt_accepts)
    with NostrEvent Some show ?thesis by simp
  qed
qed

text \<open>
  Claim C3. A well-formed record whose first bolt11 tag carries \<open>b\<close> is rejected if and
  only if \<open>b\<close> differs from the invoice of the query; and whatever the record, a receipt
  is only ever produced from a record whose first bolt11 tag carries exactly the
  invoice.
\<close>

theorem C3_fingerprint_exactness:
  "(well_formed parse ts \<longrightarrow> first_value ts ''bolt11'' b \<longrightarrow>
      (parseZapReceipt parse (NostrEvent (Some ts)) invoice = Inr None) = (b \<noteq> invoice)) \<and>
   (parseZapReceipt parse event invoice = Inr (Some r) \<longrightarrow>
      (\<exists>ts. event = NostrEvent (Some ts) \<and> first_value ts ''bolt11'' invoice))"
proof (intro conjI impI)
  assume wf: "well_formed parse ts" and b: "first_value ts ''bolt11'' b"
  show "(parseZapReceipt parse (NostrEvent (Some ts)) invoice = Inr None) = (b \<noteq> invoice)"
  proof (cases "b = invoice")
    case True
    with well_formed_accepted [OF wf b] show ?thesis by auto
  next
    case False
    obtain x where x: "parseZapReceipt parse (NostrEvent (Some ts)) invoice = Inr x"
      using parseZapReceipt_total by blast
    have "x = None"
    proof (cases x)
      case None
      then show ?thesis .
    next
      case (Some r')
      with x have "first_value ts ''bolt11'' invoice"
        by (auto simp: parseZapReceipt_accepts)
      with b False show ?thesis by (blast dest: first_value_unique)
    qed
    with x False show ?thesis by simp
  qed
next
  assume "parseZapReceipt parse event invoice = Inr (Some r)"
  then show "\<exists>ts. event = NostrEvent (Some ts) \<and> first_value ts ''bolt11'' invoice"
    by (rule accepted_fingerprint)
qed

lemma well_formed_fixture: "well_formed JSON_parse fixture_tags"
proof -
  have "first_value fixture_tags ''bolt11'' fixture_invoice"
    by (rule first_value_eval) (simp add: find_tag_def tag_value_def fixture_tags_def)
  moreover have "first_value fixture_tags ''description'' fixture_description"
    by (rule first_value_eval) (simp add: find_tag_def tag_value_def fixture_tags_def)
  moreover have "first_value fixture_tags ''p'' ''abc123...''"
    by (rule first_value_eval) (simp add: find_tag_def tag_value_def fixture_tags_def)
  moreover have "kind_9734_with_pubkey JSON_parse fixture_description"
    by (simp add: kind_9734_with_pubkey_def JSON_parse_fixture fixture_request_def)
  moreover have "fixture_invoice \<noteq> []" by (simp add: fixture_invoice_def)
  ultimately show ?thesis
    unfolding well_formed_def using fixture_description_nonempty by fastforce
qed

text \<open>
  The fixture is well-formed; it is rejected for an invoice that differs in its last
  character, and accepted for its own.
\<close>

theorem C3_fingerprint_exactness_witness:
  "well_formed JSON_parse fixture_tags \<and>
   first_value fixture_tags ''bolt11'' fixture_invoice \<and>
   parseZapReceipt JSON_parse (NostrEvent (Some fixture_tags)) ''lnbc100n1p..,'' = Inr None \<and>
   parseZapReceipt JSON_parse (NostrEvent (Some fixture_tags)) fixture_invoice \<noteq> Inr None \<and>
   first_value fixture_tags ''bolt11'' ''lnbc100n1p...''"
proof -
  have b: "first_value fixture_tags ''bolt11'' fixture_invoice"
    by (rule first_value_eval) (simp add: find_tag_def tag_value_def fixture_tags_def)
  have ne: "fixture_invoice \<noteq> ''lnbc100n1p..,''"
    by (simp add: fixture_invoice_def)
  from C3_fingerprint_exactness
    [of JSON_parse fixture_tags fixture_invoice "''lnbc100n1p..,''" "NostrEvent (Some fixture_tags)"
        fixture_receipt]
    C3_fingerprint_exactness
    [of JSON_parse fixture_tags fixture_invoice fixture_invoice "NostrEvent (Some fixture_tags)"
        fixture_receipt]
    well_formed_fixture b ne parseZapReceipt_fixture
  show ?thesis by (auto simp: fixture_invoice_def)
qed

lemma handle_rejected:
  assumes "parseZapReceipt parse event (q_invoice s) = Inr None"
  shows "handle parse (OnEvent i event) s =
     (if i < length (relays s) \<and> sub_open (relays s ! i)
      then upd_relay i (\<lambda>b. b\<lparr>eventCount := eventCount b + 1\<rparr>) s else s)"
  using assms by (simp add: handle_def may_deliver_def onevent_def upd_relay_def Let_def)

lemma rejected_description:
  assumes d: "first_value ts ''description'' d"
    and bad: "\<forall>z. parse d = Inr z \<longrightarrow> get_prop z ''kind'' \<noteq> Inr (JNum 9734)"
  shows "parseZapReceipt parse (NostrEvent (Some ts)) invoice = Inr None"
proof -
  obtain x where x: "parseZapReceipt parse (NostrEvent (Some ts)) invoice = Inr x"
    using parseZapReceipt_total by blast
  have "x = None"
  proof (cases x)
    case None
    then show ?thesis .
  next
    case (Some r)
    with x obtain d' z where "first_value ts ''description'' d'" "parse d' = Inr z"
      "get_prop z ''kind'' = Inr (JNum 9734)"
      by (auto simp: parseZapReceipt_accepts)
    with d bad show ?thesis by (auto dest: first_value_unique)
  qed
  with x show ?thesis by simp
qed

text \<open>
  Claim C4. \<^verbatim>\<open>parseZapReceipt\<close> returns on every record and never throws: a null event,
  an event without tags, a description that \<^verbatim>\<open>JSON.parse\<close> refuses and a description
  that is not a kind 9734 request (\<^verbatim>\<open>null\<close> included, where reading the kind throws
  inside the \<^verbatim>\<open>try\<close>) all give \<^verbatim>\<open>null\<close>. In the query, a rejected record only counts as
  an event of its relay: nothing else of the state changes.
\<close>

theorem C4_matcher_total:
  "(\<exists>x. parseZapReceipt parse event invoice = Inr x) \<and>
   parseZapReceipt parse NullEvent invoice = Inr None \<and>
   parseZapReceipt parse (NostrEvent None) invoice = Inr None \<and>
   (first_value ts ''description'' d \<longrightarrow> parse d = Inl e \<longrightarrow>
      parseZapReceipt parse (NostrEvent (Some ts)) invoice = Inr None) \<and>
   (first_value ts ''description'' d \<longrightarrow> parse d = Inr z \<longrightarrow>
      get_prop z ''kind'' \<noteq> Inr (JNum 9734) \<longrightarrow>
      parseZapReceipt parse (NostrEvent (Some ts)) invoice = Inr None) \<and>
   (parseZapReceipt parse event (q_invoice s) = Inr None \<longrightarrow>
      handle parse (OnEvent i event) s =
        (if i < length (relays s) \<and> sub_open (relays s ! i)
         then upd_relay i (\<lambda>b. b\<lparr>eventCount := eventCount b + 1\<rparr>) s else s))"
  using parseZapReceipt_total [of parse event invoice] parseZapReceipt_null [of parse invoice]
    parseZapReceipt_no_tags [of parse invoice] rejected_description [of ts d parse invoice]
    handle_rejected [of parse event s i]
  by auto

text \<open>
  Descriptions that are not JSON, that parse to \<^verbatim>\<open>null\<close>, and that have another kind,
  and a rejected record arriving on the open subscription of a one-relay query.
\<close>

lemma JSON_parse_samples:
  "JSON_parse ''{kind'' = Inl SyntaxError"
  "JSON_parse ''null'' = Inr JNull"
  by (simp_all add: json_eval)

theorem C4_matcher_total_witness:
  "parseZapReceipt JSON_parse
     (NostrEvent (Some [[''bolt11'', fixture_invoice], [''description'', ''{kind'']]))
     fixture_invoice = Inr None \<and>
   parseZapReceipt JSON_parse
     (NostrEvent (Some [[''bolt11'', fixture_invoice], [''description'', ''null'']]))
     fixture_invoice = Inr None \<and>
   handle JSON_parse (OnEvent 0 (NostrEvent None))
     (step JSON_parse (ConnectOk 0) (start fixture_invoice (Some ''abc123...'') [''wss://relay-1''])) =
   upd_relay 0 (\<lambda>b. b\<lparr>eventCount := eventCount b + 1\<rparr>)
     (step JSON_parse (ConnectOk 0) (start fixture_invoice (Some ''abc123...'') [''wss://relay-1'']))"
proof -
  let ?s = "step JSON_parse (ConnectOk 0)
              (start fixture_invoice (Some ''abc123...'') [''wss://relay-1''])"
  let ?t1 = "[[''bolt11'', fixture_invoice], [''description'', ''{kind'']]"
  let ?t2 = "[[''bolt11'', fixture_invoice], [''description'', ''null'']]"
  have d1: "first_value ?t1 ''description'' ''{kind''"
    by (rule first_value_eval) (simp add: find_tag_def tag_value_def)
  have d2: "first_value ?t2 ''description'' ''null''"
    by (rule first_value_eval) (simp add: find_tag_def tag_value_def)
  have k: "get_prop JNull ''kind'' \<noteq> Inr (JNum 9734)"
    by simp
  have open0: "0 < length (relays ?s) \<and> sub_open (relays ?s ! 0)"
    by (simp add: step_def promise_all_def resolve_def handle_def may_settle_def
        on_connect_ok_def upd_relay_def setTimeout_def start_def new_branch_def)
  from C4_matcher_total
    [of JSON_parse "NostrEvent None" fixture_invoice ?t1 "''{kind''" SyntaxError JNull ?s 0]
    C4_matcher_total
    [of JSON_parse "NostrEvent None" fixture_invoice ?t2 "''null''" SyntaxError JNull ?s 0]
    d1 d2 k open0 JSON_parse_samples parseZapReceipt_no_tags [of JSON_parse "q_invoice ?s"]
  show ?thesis by simp
qed

section \<open>The query: lemmas\<close>

lemma upd_relay_fields [simp]:
  "q_invoice (upd_relay i f s) = q_invoice s"
  "q_recipientPubkey (upd_relay i f s) = q_recipientPubkey s"
  "totalRelays (upd_relay i f s) = totalRelays s"
  "zapReceipt (upd_relay i f s) = zapReceipt s"
  "completedRelays (upd_relay i f s) = completedRelays s"
  "timers (upd_relay i f s) = timers s"
  "now (upd_relay i f s) = now s"
  "outcome (upd_relay i f s) = outcome s"
  "length (relays (upd_relay i f s)) = length (relays s)"
  by (simp_all add: upd_relay_def)

lemma upd_relay_nth [simp]:
  "j < length (relays s) \<Longrightarrow>
   relays (upd_relay i f s) ! j = (if i = j then f (relays s ! j) else relays s ! j)"
  by (simp add: upd_relay_def nth_list_update)

lemma upd_relay_update [simp]:
  "upd_relay i f (s\<lparr>zapReceipt := z\<rparr>) = (upd_relay i f s)\<lparr>zapReceipt := z\<rparr>"
  "upd_relay i f (s\<lparr>completedRelays := c\<rparr>) = (upd_relay i f s)\<lparr>completedRelays := c\<rparr>"
  "upd_relay i f (s\<lparr>timers := ts\<rparr>) = (upd_relay i f s)\<lparr>timers := ts\<rparr>"
  "upd_relay i f (s\<lparr>now := n\<rparr>) = (upd_relay i f s)\<lparr>now := n\<rparr>"
  "upd_relay i f (s\<lparr>outcome := out\<rparr>) = (upd_relay i f s)\<lparr>outcome := out\<rparr>"
  by (simp_all add: upd_relay_def)

lemmas handlers = handle_def may_settle_def may_deliver_def on_connect_ok_def
  on_connect_fail_def onevent_def oneose_def relay_timeout_def overall_timeout_def
  resolveRelay_def sub_close_def setTimeout_def resolve_def pending_timer_def Let_def

lemmas handler_splits = action.splits timer.splits sum.splits option.splits

lemma handle_params [simp]:
  "q_invoice (handle parse a s) = q_invoice s"
  "q_recipientPubkey (handle parse a s) = q_recipientPubkey s"
  "totalRelays (handle parse a s) = totalRelays s"
  "length (relays (handle parse a s)) = length (relays s)"
  by (auto simp: handlers split: handler_splits)

lemma promise_all_fields [simp]:
  "q_invoice (promise_all s) = q_invoice s"
  "q_recipientPubkey (promise_all s) = q_recipientPubkey s"
  "totalRelays (promise_all s) = totalRelays s"
  "relays (promise_all s) = relays s"
  "zapReceipt (promise_all s) = zapReceipt s"
  "completedRelays (promise_all s) = completedRelays s"
  "timers (promise_all s) = timers s"
  "now (promise_all s) = now s"
  by (simp_all add: promise_all_def resolve_def)

lemma step_params [simp]:
  "q_invoice (step parse a s) = q_invoice s"
  "q_recipientPubkey (step parse a s) = q_recipientPubkey s"
  "totalRelays (step parse a s) = totalRelays s"
  "length (relays (step parse a s)) = length (relays s)"
  by (simp_all add: step_def)

lemma run_Nil [simp]: "run parse [] s = s"
  by (simp add: run_def)

lemma run_Cons [simp]: "run parse (a # tr) s = run parse tr (step parse a s)"
  by (simp add: run_def)

lemma run_append [simp]: "run parse (tr @ tr') s = run parse tr' (run parse tr s)"
  by (simp add: run_def)

lemma run_params [simp]:
  "q_invoice (run parse tr s) = q_invoice s"
  "q_recipientPubkey (run parse tr s) = q_recipientPubkey s"
  "totalRelays (run parse tr s) = totalRelays s"
  "length (relays (run parse tr s)) = length (relays s)"
  by (induction tr arbitrary: s) simp_all

lemma start_fields [simp]:
  "q_invoice (start invoice recipient relayUrls) = invoice"
  "q_recipientPubkey (start invoice recipient relayUrls) = recipient"
  "totalRelays (start invoice recipient relayUrls) = length relayUrls"
  "relays (start invoice recipient relayUrls) = map new_branch relayUrls"
  "zapReceipt (start invoice recipient relayUrls) = None"
  "completedRelays (start invoice recipient relayUrls) = 0"
  "timers (start invoice recipient relayUrls) = [(10000, OverallTimer)]"
  "now (start invoice recipient relayUrls) = 0"
  by (simp_all add: start_def)

lemma fetch_params:
  "q_invoice (fetchZapReceiptForInvoice parse invoice recipient relayUrls tr) = invoice"
  "q_recipientPubkey (fetchZapReceiptForInvoice parse invoice recipient relayUrls tr) = recipient"
  "length (relays (fetchZapReceiptForInvoice parse invoice recipient relayUrls tr)) = length relayUrls"
  by (simp_all add: fetchZapReceiptForInvoice_def)

lemma run_invariant:
  assumes "P s" and "\<And>a s. P s \<Longrightarrow> P (step parse a s)"
  shows "P (run parse tr s)"
  using assms(1) by (induction tr arbitrary: s) (simp_all add: assms(2))

text \<open>The stored receipt is written once.\<close>

lemma handle_zapReceipt_kept:
  "zapReceipt s = Some r \<Longrightarrow> zapReceipt (handle parse a s) = Some r"
  by (auto simp: handlers split: handler_splits)

lemma step_zapReceipt_kept: "zapReceipt s = Some r \<Longrightarrow> zapReceipt (step parse a s) = Some r"
  by (simp add: step_def handle_zapReceipt_kept)

lemma run_zapReceipt_kept: "zapReceipt s = Some r \<Longrightarrow> zapReceipt (run parse tr s) = Some r"
  by (induction tr arbitrary: s) (simp_all add: step_zapReceipt_kept)

text \<open>While no receipt is stored, a callback stores the receipt of the record it delivers.\<close>

lemma handle_first_match:
  "zapReceipt s = None \<Longrightarrow> zapReceipt (handle parse a s) = delivered_match parse a s"
  by (auto simp: handlers delivered_match_def split: handler_splits)

lemma step_first_match:
  "zapReceipt s = None \<Longrightarrow> zapReceipt (step parse a s) = delivered_match parse a s"
  by (simp add: step_def handle_first_match)

text \<open>What a callback can do to the outer promise.\<close>

lemma handle_outcome:
  "outcome (handle parse a s) =
     (if a = Fire OverallTimer \<and> pending_timer OverallTimer s \<and> zapReceipt s = None \<and>
         outcome s = Pending
      then Resolved None else outcome s)"
  by (auto simp: handlers split: handler_splits)

lemma promise_all_outcome:
  "outcome (promise_all s) =
     (if list_all relay_done (relays s) \<and> outcome s = Pending then Resolved (zapReceipt s)
      else outcome s)"
  by (simp add: promise_all_def resolve_def)

lemma step_outcome_cases:
  "outcome (step parse a s) = outcome s \<or>
   (outcome s = Pending \<and>
    (outcome (step parse a s) = Resolved None \<or>
     outcome (step parse a s) = Resolved (zapReceipt (step parse a s))))"
  by (simp add: step_def promise_all_outcome handle_outcome)

lemma step_settled: "outcome s \<noteq> Pending \<Longrightarrow> outcome (step parse a s) = outcome s"
  using step_outcome_cases [of parse a s] by auto

lemma run_settled: "outcome s \<noteq> Pending \<Longrightarrow> outcome (run parse tr s) = outcome s"
  by (induction tr arbitrary: s) (simp_all add: step_settled)

lemma step_resolved_receipt:
  assumes "\<forall>r. outcome s = Resolved (Some r) \<longrightarrow> zapReceipt s = Some r"
  shows "\<forall>r. outcome (step parse a s) = Resolved (Some r) \<longrightarrow> zapReceipt (step parse a s) = Some r"
  using assms step_outcome_cases [of parse a s] step_zapReceipt_kept [of s _ parse a]
  by auto

lemma step_not_rejected:
  assumes "\<forall>e. outcome s \<noteq> Rejected e"
  shows "\<forall>e. outcome (step parse a s) \<noteq> Rejected e"
  using assms step_outcome_cases [of parse a s] by auto

lemma start_outcome:
  "outcome (start invoice recipient relayUrls) = (if relayUrls = [] then Resolved None else Pending)"
  by (cases relayUrls) (simp_all add: start_def promise_all_def resolve_def new_branch_def)

lemma fetch_resolved_receipt:
  "outcome (fetchZapReceiptForInvoice parse invoice recipient relayUrls tr) = Resolved (Some r) \<Longrightarrow>
   zapReceipt (fetchZapReceiptForInvoice parse invoice recipient relayUrls tr) = Some r"
proof -
  let ?P = "\<lambda>s. \<forall>r. outcome s = Resolved (Some r) \<longrightarrow> zapReceipt s = Some r"
  have "?P (run parse tr (start invoice recipient relayUrls))"
    by (rule run_invariant [where P = ?P]) (simp add: start_outcome, rule step_resolved_receipt)
  then show "outcome (fetchZapReceiptForInvoice parse invoice recipient relayUrls tr) = Resolved (Some r) \<Longrightarrow>
   zapReceipt (fetchZapReceiptForInvoice parse invoice recipient relayUrls tr) = Some r"
    by (simp add: fetchZapReceiptForInvoice_def)
qed

lemma fetch_not_rejected:
  "outcome (fetchZapReceiptForInvoice parse invoice recipient relayUrls tr) \<noteq> Rejected e"
proof -
  let ?P = "\<lambda>s. \<forall>e. outcome s \<noteq> Rejected e"
  have "?P (run parse tr (start invoice recipient relayUrls))"
    by (rule run_invariant [where P = ?P]) (simp add: start_outcome, rule step_not_rejected)
  then show ?thesis
    by (simp add: fetchZapReceiptForInvoice_def)
qed

text \<open>After every callback the reaction of Promise.all has run.\<close>

lemma promise_all_done:
  "list_all relay_done (relays (promise_all s)) \<Longrightarrow> outcome (promise_all s) \<noteq> Pending"
  by (simp add: promise_all_outcome)

lemma run_done:
  assumes "list_all relay_done (relays s) \<longrightarrow> outcome s \<noteq> Pending"
  shows "list_all relay_done (relays (run parse tr s)) \<longrightarrow> outcome (run parse tr s) \<noteq> Pending"
  using assms
proof (induction tr arbitrary: s)
  case Nil
  then show ?case by simp
next
  case (Cons a tr)
  have "list_all relay_done (relays (step parse a s)) \<longrightarrow> outcome (step parse a s) \<noteq> Pending"
    unfolding step_def using promise_all_done by blast
  from Cons.IH [OF this] show ?case by simp
qed

lemma fetch_done:
  "list_all relay_done (relays (fetchZapReceiptForInvoice parse invoice recipient relayUrls tr)) \<Longrightarrow>
   outcome (fetchZapReceiptForInvoice parse invoice recipient relayUrls tr) \<noteq> Pending"
proof -
  have "list_all relay_done (relays (start invoice recipient relayUrls)) \<longrightarrow>
        outcome (start invoice recipient relayUrls) \<noteq> Pending"
    unfolding start_def using promise_all_done by blast
  from run_done [OF this, of parse tr]
  show "list_all relay_done (relays (fetchZapReceiptForInvoice parse invoice recipient relayUrls tr)) \<Longrightarrow>
   outcome (fetchZapReceiptForInvoice parse invoice recipient relayUrls tr) \<noteq> Pending"
    by (simp add: fetchZapReceiptForInvoice_def)
qed

lemma fetch_outcome_cases:
  "outcome (fetchZapReceiptForInvoice parse invoice recipient relayUrls tr) = Pending \<or>
   outcome (fetchZapReceiptForInvoice parse invoice recipient relayUrls tr) = Resolved None \<or>
   (\<exists>r. outcome (fetchZapReceiptForInvoice parse invoice recipient relayUrls tr) = Resolved (Some r) \<and>
        zapReceipt (fetchZapReceiptForInvoice parse invoice recipient relayUrls tr) = Some r)"
proof (cases "outcome (fetchZapReceiptForInvoice parse invoice recipient relayUrls tr)")
  case Pending
  then show ?thesis by simp
next
  case (Resolved x)
  then show ?thesis
    using fetch_resolved_receipt [of parse invoice recipient relayUrls tr] by (cases x) auto
next
  case (Rejected e)
  then show ?thesis using fetch_not_rejected by blast
qed

text \<open>The branch invariant holds after any callbacks.\<close>

lemma handle_branch_inv: "branch_inv s \<Longrightarrow> branch_inv (handle parse a s)"
  unfolding branch_inv_def
  by (cases a) (auto simp: handlers nth_list_update split: handler_splits)

lemma step_branch_inv: "branch_inv s \<Longrightarrow> branch_inv (step parse a s)"
  using handle_branch_inv [of s parse a]
  by (simp add: step_def branch_inv_def)

lemma start_branch_inv: "branch_inv (start invoice recipient relayUrls)"
  by (simp add: branch_inv_def new_branch_def)

lemma fetch_branch_inv:
  "branch_inv (fetchZapReceiptForInvoice parse invoice recipient relayUrls tr)"
  unfolding fetchZapReceiptForInvoice_def
  by (rule run_invariant [OF start_branch_inv step_branch_inv])

text \<open>Unfolding the handlers and the clock on concrete callbacks.\<close>

lemmas query_eval = fetchZapReceiptForInvoice_def step_def promise_all_def handlers upd_relay_def
  start_def new_branch_def

lemmas timed_eval = fetchZapReceiptForInvoice_at_def state_at_def deliver_def advance_def
  fire_at_def due_timers_def

lemma logs_fixture: "logs_receipt fixture_receipt"
  by (simp add: logs_receipt_def slice16_def fixture_receipt_def)

lemmas run_eval = query_eval two_relays_def parseZapReceipt_fixture logs_fixture

lemmas clock_eval = timed_eval run_eval race_schedule_def drained_schedule_def late_schedule_def

section \<open>First match\<close>

lemma step_accept:
  assumes i: "i < length (relays s)" and "sub_open (relays s ! i)" and "zapReceipt s = None"
    and "parseZapReceipt parse event (q_invoice s) = Inr (Some r)" and "logs_receipt r"
  shows "zapReceipt (step parse (OnEvent i event) s) = Some r"
    and "\<not> sub_open (relays (step parse (OnEvent i event) s) ! i)"
    and "relay_done (relays (step parse (OnEvent i event) s) ! i)"
    and "connected (relays (step parse (OnEvent i event) s) ! i) = connected (relays s ! i)"
    and "j < length (relays s) \<Longrightarrow> j \<noteq> i \<Longrightarrow> relays (step parse (OnEvent i event) s) ! j = relays s ! j"
  using assms by (simp_all add: step_def handlers)

text \<open>
  Claim C1, as the code has it. When a relay's open subscription delivers a record that
  the matcher accepts, with a receipt that the callback can log, and no receipt is
  stored yet, the receipt is stored, that branch closes its own subscription and its
  promise is resolved; the callback touches no sibling branch; and whatever callbacks
  follow, the stored receipt stays, and it is the only receipt the query can resolve
  with.
\<close>

theorem C1_first_match_stored:
  assumes "s = fetchZapReceiptForInvoice parse invoice recipient relayUrls tr"
    and "s' = fetchZapReceiptForInvoice parse invoice recipient relayUrls (tr @ [OnEvent i event])"
    and "s'' = fetchZapReceiptForInvoice parse invoice recipient relayUrls (tr @ OnEvent i event # tr')"
    and "i < length relayUrls" and "sub_open (relays s ! i)" and "zapReceipt s = None"
    and "parseZapReceipt parse event invoice = Inr (Some r)" and "logs_receipt r"
  shows "zapReceipt s' = Some r \<and>
         \<not> sub_open (relays s' ! i) \<and> relay_done (relays s' ! i) \<and>
         (\<forall>j<length relayUrls. j \<noteq> i \<longrightarrow> relays s' ! j = relays s ! j) \<and>
         zapReceipt s'' = Some r \<and>
         (\<forall>r'. outcome s'' = Resolved (Some r') \<longrightarrow> r' = r)"
proof -
  have len: "length (relays s) = length relayUrls" and inv: "q_invoice s = invoice"
    by (simp_all add: assms(1) fetchZapReceiptForInvoice_def)
  have s': "s' = step parse (OnEvent i event) s"
    by (simp add: assms(1,2) fetchZapReceiptForInvoice_def)
  have s'': "s'' = run parse tr' s'"
    by (simp add: assms(1,2,3) fetchZapReceiptForInvoice_def)
  from assms(4-8) len inv have acc: "zapReceipt s' = Some r" "\<not> sub_open (relays s' ! i)"
    "relay_done (relays s' ! i)"
    "\<And>j. j < length relayUrls \<Longrightarrow> j \<noteq> i \<Longrightarrow> relays s' ! j = relays s ! j"
    unfolding s' by (simp_all add: step_accept)
  from acc(1) have kept: "zapReceipt s'' = Some r"
    unfolding s'' by (rule run_zapReceipt_kept)
  have "\<forall>r'. outcome s'' = Resolved (Some r') \<longrightarrow> r' = r"
    using fetch_resolved_receipt [of parse invoice recipient relayUrls "tr @ OnEvent i event # tr'"]
      kept by (auto simp: assms(3))
  with acc kept show ?thesis by simp
qed

text \<open>
  Two relays, both connected: relay A delivers the fixture, then relay B delivers
  another record and its timer fires.
\<close>

theorem C1_first_match_stored_witness:
  "zapReceipt (fetchZapReceiptForInvoice JSON_parse fixture_invoice (Some ''abc123...'') two_relays
     [ConnectOk 0, ConnectOk 1, OnEvent 0 (NostrEvent (Some fixture_tags))]) = Some fixture_receipt \<and>
   \<not> sub_open (relays (fetchZapReceiptForInvoice JSON_parse fixture_invoice (Some ''abc123...'')
     two_relays [ConnectOk 0, ConnectOk 1, OnEvent 0 (NostrEvent (Some fixture_tags))]) ! 0) \<and>
   relay_done (relays (fetchZapReceiptForInvoice JSON_parse fixture_invoice (Some ''abc123...'')
     two_relays [ConnectOk 0, ConnectOk 1, OnEvent 0 (NostrEvent (Some fixture_tags))]) ! 0) \<and>
   relays (fetchZapReceiptForInvoice JSON_parse fixture_invoice (Some ''abc123...'')
     two_relays [ConnectOk 0, ConnectOk 1, OnEvent 0 (NostrEvent (Some fixture_tags))]) ! 1 =
   relays (fetchZapReceiptForInvoice JSON_parse fixture_invoice (Some ''abc123...'')
     two_relays [ConnectOk 0, ConnectOk 1]) ! 1 \<and>
   outcome (fetchZapReceiptForInvoice JSON_parse fixture_invoice (Some ''abc123...'') two_relays
     [ConnectOk 0, ConnectOk 1, OnEvent 0 (NostrEvent (Some fixture_tags)),
      OnEvent 1 (NostrEvent (Some cx_second_bolt11)), Fire (RelayTimer 1)]) =
     Resolved (Some fixture_receipt)"
proof -
  let ?f = "fetchZapReceiptForInvoice JSON_parse fixture_invoice (Some ''abc123...'') two_relays"
  let ?tr = "[ConnectOk 0, ConnectOk 1]"
  let ?ev = "NostrEvent (Some fixture_tags)"
  let ?tr' = "[OnEvent 1 (NostrEvent (Some cx_second_bolt11)), Fire (RelayTimer 1)]"
  have h: "0 < length two_relays" "sub_open (relays (?f ?tr) ! 0)" "zapReceipt (?f ?tr) = None"
    by (simp_all add: run_eval)
  have one: "(1::nat) < length two_relays \<and> (1::nat) \<noteq> 0"
    by (simp add: two_relays_def)
  have out: "outcome (?f (?tr @ OnEvent 0 ?ev # ?tr')) \<noteq> Pending \<and>
             outcome (?f (?tr @ OnEvent 0 ?ev # ?tr')) \<noteq> Resolved None"
    by (simp add: run_eval)
  from C1_first_match_stored [OF refl refl refl h parseZapReceipt_fixture logs_fixture, of ?tr']
  have th: "zapReceipt (?f (?tr @ [OnEvent 0 ?ev])) = Some fixture_receipt"
    "\<not> sub_open (relays (?f (?tr @ [OnEvent 0 ?ev])) ! 0)"
    "relay_done (relays (?f (?tr @ [OnEvent 0 ?ev])) ! 0)"
    "\<forall>j<length two_relays. j \<noteq> 0 \<longrightarrow>
       relays (?f (?tr @ [OnEvent 0 ?ev])) ! j = relays (?f ?tr) ! j"
    "\<forall>r'. outcome (?f (?tr @ OnEvent 0 ?ev # ?tr')) = Resolved (Some r') \<longrightarrow> r' = fixture_receipt"
    by blast+
  from th(4) one have sib: "relays (?f (?tr @ [OnEvent 0 ?ev])) ! 1 = relays (?f ?tr) ! 1"
    by blast
  from th(5) out have "outcome (?f (?tr @ OnEvent 0 ?ev # ?tr')) = Resolved (Some fixture_receipt)"
    using fetch_outcome_cases [of JSON_parse fixture_invoice "Some ''abc123...''" two_relays
        "?tr @ OnEvent 0 ?ev # ?tr'"]
    by auto
  with th(1-3) sib show ?thesis by simp
qed

text \<open>
  Two relays connected at time 0; relay A delivers the fixture at 2000 and relay B at
  4000. At 2000 the receipt is stored, but the query is still pending and the
  subscription of B is still open; so they are at 4999. The query resolves at 5000,
  when the timer of B fires.
\<close>

theorem C1_counterexample:
  "zapReceipt (fetchZapReceiptForInvoice_at JSON_parse fixture_invoice (Some ''abc123...'')
      two_relays race_schedule 2000) = Some fixture_receipt \<and>
   outcome (fetchZapReceiptForInvoice_at JSON_parse fixture_invoice (Some ''abc123...'')
      two_relays race_schedule 2000) = Pending \<and>
   sub_open (relays (fetchZapReceiptForInvoice_at JSON_parse fixture_invoice (Some ''abc123...'')
      two_relays race_schedule 2000) ! 1) \<and>
   outcome (fetchZapReceiptForInvoice_at JSON_parse fixture_invoice (Some ''abc123...'')
      two_relays race_schedule 4999) = Pending \<and>
   sub_open (relays (fetchZapReceiptForInvoice_at JSON_parse fixture_invoice (Some ''abc123...'')
      two_relays race_schedule 4999) ! 1) \<and>
   outcome (fetchZapReceiptForInvoice_at JSON_parse fixture_invoice (Some ''abc123...'')
      two_relays race_schedule 5000) = Resolved (Some fixture_receipt)"
  by (simp add: clock_eval)

section \<open>Connections and subscriptions after the query\<close>

text \<open>A connection, once open, stays open: no callback closes it.\<close>

lemma handle_connected_kept:
  "j < length (relays s) \<Longrightarrow> connected (relays s ! j) \<Longrightarrow> connected (relays (handle parse a s) ! j)"
  by (auto simp: handlers nth_list_update split: handler_splits)

lemma step_connected_kept:
  "j < length (relays s) \<Longrightarrow> connected (relays s ! j) \<Longrightarrow> connected (relays (step parse a s) ! j)"
  by (simp add: step_def handle_connected_kept)

lemma run_connected_kept:
  "j < length (relays s) \<Longrightarrow> connected (relays s ! j) \<Longrightarrow> connected (relays (run parse tr s) ! j)"
  by (induction tr arbitrary: s) (simp_all add: step_connected_kept)

text \<open>
  Claim C5 on the code. One relay that connects and signals the end of stored events:
  the query has resolved with \<^verbatim>\<open>null\<close> and the connection is still open. Two relays, the
  second of which connects after 6000 milliseconds: at 10000 the overall timer has
  resolved the query, both connections are open and the second subscription is open.
\<close>

theorem C5_connection_left_open:
  "outcome (fetchZapReceiptForInvoice JSON_parse fixture_invoice (Some ''abc123...'')
      [''wss://relay-1''] [ConnectOk 0, OnEose 0]) = Resolved None \<and>
   connected (relays (fetchZapReceiptForInvoice JSON_parse fixture_invoice (Some ''abc123...'')
      [''wss://relay-1''] [ConnectOk 0, OnEose 0]) ! 0) \<and>
   outcome (fetchZapReceiptForInvoice_at JSON_parse fixture_invoice (Some ''abc123...'')
      two_relays late_schedule 10000) = Resolved None \<and>
   connected (relays (fetchZapReceiptForInvoice_at JSON_parse fixture_invoice (Some ''abc123...'')
      two_relays late_schedule 10000) ! 0) \<and>
   connected (relays (fetchZapReceiptForInvoice_at JSON_parse fixture_invoice (Some ''abc123...'')
      two_relays late_schedule 10000) ! 1) \<and>
   sub_open (relays (fetchZapReceiptForInvoice_at JSON_parse fixture_invoice (Some ''abc123...'')
      two_relays late_schedule 10000) ! 1)"
  by (simp add: clock_eval)

section \<open>Resolution when every branch is done\<close>

lemma step_eose:
  assumes "i < length (relays s)" and "sub_open (relays s ! i)"
  shows "\<not> sub_open (relays (step parse (OnEose i) s) ! i)"
    and "completedRelays (step parse (OnEose i) s) = completedRelays s + 1"
    and "relay_done (relays (step parse (OnEose i) s) ! i) =
           (relay_done (relays s ! i) \<or> totalRelays s \<le> completedRelays s + 1 \<or> zapReceipt s \<noteq> None)"
  using assms by (auto simp: step_def handlers)

lemma step_relay_timer:
  assumes "i < length (relays s)" and "pending_timer (RelayTimer i) s"
  shows "\<not> sub_open (relays (step parse (Fire (RelayTimer i)) s) ! i)"
    and "relay_done (relays (step parse (Fire (RelayTimer i)) s) ! i)"
  using assms by (simp_all add: step_def handlers)

lemma step_connect_fail:
  assumes "i < length (relays s)" and "connecting (relays s ! i)"
  shows "relay_done (relays (step parse (ConnectFail i) s) ! i)"
  using assms by (simp add: step_def handlers)

text \<open>
  Claim C6, as the code has it. As soon as the promise of every branch is resolved, the
  query is resolved, with \<^verbatim>\<open>null\<close> when no receipt is stored, whatever the timers. An
  end of stored events closes the subscription of its branch, and resolves the promise
  of that branch exactly when a receipt is already stored or this is at least the
  \<open>totalRelays\<close>-th end of stored events of the query. The timer of a branch closes its
  subscription and resolves its promise, and a failed connection resolves it.
\<close>

theorem C6_all_done_resolves:
  assumes "f = fetchZapReceiptForInvoice parse invoice recipient relayUrls" and "s = f tr"
  shows "(list_all relay_done (relays s) \<longrightarrow>
            outcome s \<noteq> Pending \<and> (zapReceipt s = None \<longrightarrow> outcome s = Resolved None)) \<and>
         (i < length relayUrls \<longrightarrow> sub_open (relays s ! i) \<longrightarrow>
            \<not> sub_open (relays (f (tr @ [OnEose i])) ! i) \<and>
            relay_done (relays (f (tr @ [OnEose i])) ! i) =
              (relay_done (relays s ! i) \<or> totalRelays s \<le> completedRelays s + 1 \<or>
               zapReceipt s \<noteq> None)) \<and>
         (i < length relayUrls \<longrightarrow> pending_timer (RelayTimer i) s \<longrightarrow>
            \<not> sub_open (relays (f (tr @ [Fire (RelayTimer i)])) ! i) \<and>
            relay_done (relays (f (tr @ [Fire (RelayTimer i)])) ! i)) \<and>
         (i < length relayUrls \<longrightarrow> connecting (relays s ! i) \<longrightarrow>
            relay_done (relays (f (tr @ [ConnectFail i])) ! i))"
proof -
  have len: "length (relays s) = length relayUrls"
    by (simp add: assms fetchZapReceiptForInvoice_def)
  have next_state: "f (tr @ [a]) = step parse a s" for a
    by (simp add: assms fetchZapReceiptForInvoice_def)
  have "list_all relay_done (relays s) \<longrightarrow>
            outcome s \<noteq> Pending \<and> (zapReceipt s = None \<longrightarrow> outcome s = Resolved None)"
    using fetch_done [of parse invoice recipient relayUrls tr]
      fetch_outcome_cases [of parse invoice recipient relayUrls tr]
    by (auto simp: assms)
  moreover have "i < length relayUrls \<longrightarrow> sub_open (relays s ! i) \<longrightarrow>
            \<not> sub_open (relays (f (tr @ [OnEose i])) ! i) \<and>
            relay_done (relays (f (tr @ [OnEose i])) ! i) =
              (relay_done (relays s ! i) \<or> totalRelays s \<le> completedRelays s + 1 \<or>
               zapReceipt s \<noteq> None)"
    unfolding next_state using len step_eose [of i s parse] by simp
  moreover have "i < length relayUrls \<longrightarrow> pending_timer (RelayTimer i) s \<longrightarrow>
            \<not> sub_open (relays (f (tr @ [Fire (RelayTimer i)])) ! i) \<and>
            relay_done (relays (f (tr @ [Fire (RelayTimer i)])) ! i)"
    unfolding next_state using len step_relay_timer [of i s parse] by simp
  moreover have "i < length relayUrls \<longrightarrow> connecting (relays s ! i) \<longrightarrow>
            relay_done (relays (f (tr @ [ConnectFail i])) ! i)"
    unfolding next_state using len step_connect_fail [of i s parse] by simp
  ultimately show ?thesis by simp
qed

text \<open>
  The second end of stored events of two resolves its branch; the first branch is
  resolved by its timer, and the query with it.
\<close>

theorem C6_all_done_resolves_witness:
  "\<not> sub_open (relays (fetchZapReceiptForInvoice JSON_parse fixture_invoice (Some ''abc123...'')
       two_relays [ConnectOk 0, ConnectOk 1, OnEose 0, OnEose 1]) ! 1) \<and>
   relay_done (relays (fetchZapReceiptForInvoice JSON_parse fixture_invoice (Some ''abc123...'')
       two_relays [ConnectOk 0, ConnectOk 1, OnEose 0, OnEose 1]) ! 1) \<and>
   \<not> relay_done (relays (fetchZapReceiptForInvoice JSON_parse fixture_invoice (Some ''abc123...'')
       two_relays [ConnectOk 0, ConnectOk 1, OnEose 0]) ! 0) \<and>
   outcome (fetchZapReceiptForInvoice JSON_parse fixture_invoice (Some ''abc123...'')
       two_relays [ConnectOk 0, ConnectOk 1, OnEose 0, OnEose 1, Fire (RelayTimer 0)]) =
     Resolved None \<and>
   relay_done (relays (fetchZapReceiptForInvoice JSON_parse fixture_invoice (Some ''abc123...'')
       two_relays [ConnectOk 0, Fire (RelayTimer 0)]) ! 0) \<and>
   relay_done (relays (fetchZapReceiptForInvoice JSON_parse fixture_invoice (Some ''abc123...'')
       two_relays [ConnectOk 0, ConnectFail 1]) ! 1)"
proof -
  let ?f = "fetchZapReceiptForInvoice JSON_parse fixture_invoice (Some ''abc123...'') two_relays"
  let ?tr = "[ConnectOk 0, ConnectOk 1, OnEose 0]"
  have t: "0 < length two_relays" "pending_timer (RelayTimer 0) (?f [ConnectOk 0])"
    "1 < length two_relays" "connecting (relays (?f [ConnectOk 0]) ! 1)"
    by (simp_all add: run_eval)
  from C6_all_done_resolves [OF refl refl, where parse = JSON_parse and invoice = fixture_invoice
      and recipient = "Some ''abc123...''" and relayUrls = two_relays and tr = "[ConnectOk 0]"
      and i = 0] t(1,2)
  have timer: "relay_done (relays (?f ([ConnectOk 0] @ [Fire (RelayTimer 0)])) ! 0)"
    by simp
  from C6_all_done_resolves [OF refl refl, where parse = JSON_parse and invoice = fixture_invoice
      and recipient = "Some ''abc123...''" and relayUrls = two_relays and tr = "[ConnectOk 0]"
      and i = 1] t(3,4)
  have failed: "relay_done (relays (?f ([ConnectOk 0] @ [ConnectFail 1])) ! 1)"
    by simp
  let ?tr2 = "[ConnectOk 0, ConnectOk 1, OnEose 0, OnEose 1, Fire (RelayTimer 0)]"
  have h: "1 < length two_relays" "sub_open (relays (?f ?tr) ! 1)"
    "totalRelays (?f ?tr) \<le> completedRelays (?f ?tr) + 1"
    "\<not> relay_done (relays (?f ?tr) ! 0)"
    by (simp_all add: run_eval)
  have d: "list_all relay_done (relays (?f ?tr2))" "zapReceipt (?f ?tr2) = None"
    by (simp_all add: run_eval)
  from C6_all_done_resolves [OF refl refl, where parse = JSON_parse and invoice = fixture_invoice
      and recipient = "Some ''abc123...''" and relayUrls = two_relays and tr = ?tr and i = 1] h
  have "\<not> sub_open (relays (?f (?tr @ [OnEose 1])) ! 1) \<and>
        relay_done (relays (?f (?tr @ [OnEose 1])) ! 1)"
    by simp
  moreover from C6_all_done_resolves [OF refl refl, where parse = JSON_parse
      and invoice = fixture_invoice and recipient = "Some ''abc123...''" and relayUrls = two_relays
      and tr = ?tr2 and i = 0] d
  have "outcome (?f ?tr2) = Resolved None"
    by simp
  ultimately show ?thesis using h(4) timer failed by simp
qed

text \<open>
  Two relays connected at time 0 that signal the end of stored events at 100 and 200.
  At 200 both subscriptions are closed and nothing has matched, but the query is
  pending; it stays pending until the timer of the first relay fires at 5000.
\<close>

theorem C6_counterexample:
  "list_all (\<lambda>b. connected b \<and> \<not> sub_open b)
     (relays (fetchZapReceiptForInvoice_at JSON_parse fixture_invoice (Some ''abc123...'')
        two_relays drained_schedule 200)) \<and>
   zapReceipt (fetchZapReceiptForInvoice_at JSON_parse fixture_invoice (Some ''abc123...'')
      two_relays drained_schedule 200) = None \<and>
   outcome (fetchZapReceiptForInvoice_at JSON_parse fixture_invoice (Some ''abc123...'')
      two_relays drained_schedule 200) = Pending \<and>
   outcome (fetchZapReceiptForInvoice_at JSON_parse fixture_invoice (Some ''abc123...'')
      two_relays drained_schedule 4999) = Pending \<and>
   outcome (fetchZapReceiptForInvoice_at JSON_parse fixture_invoice (Some ''abc123...'')
      two_relays drained_schedule 5000) = Resolved None"
  by (simp add: clock_eval)

section \<open>The overall timeout\<close>

text \<open>Firing a timer removes it, so that after \<open>advance\<close> no timer is due.\<close>

lemma timers_step_fire:
  "timers (step parse (Fire tm) s) = filter (\<lambda>x. snd x \<noteq> tm) (timers s)"
proof (cases "pending_timer tm s")
  case True
  then show ?thesis
    by (cases tm) (simp_all add: step_def handlers)
next
  case False
  then have "filter (\<lambda>x. snd x \<noteq> tm) (timers s) = timers s"
    by (auto simp: pending_timer_def filter_id_conv)
  with False show ?thesis
    by (simp add: step_def handle_def)
qed

lemma timers_fire_at:
  "timers (fire_at parse x s) = filter (\<lambda>y. snd y \<noteq> snd x) (timers s)"
  by (simp add: fire_at_def timers_step_fire)

lemma timers_fold_fire:
  "timers (fold (fire_at parse) L s) = filter (\<lambda>y. snd y \<notin> snd ` set L) (timers s)"
proof (induction L arbitrary: s)
  case Nil
  show ?case by simp
next
  case (Cons x L)
  show ?case
    by (simp add: Cons.IH timers_fire_at)
qed

lemma advance_none_due:
  assumes "y \<in> set (timers (advance parse t s))"
  shows "t < fst y"
proof (rule ccontr)
  assume "\<not> t < fst y"
  then have le: "fst y \<le> t" by simp
  from assms have y: "y \<in> set (timers s)" and no: "snd y \<notin> snd ` set (due_timers t s)"
    by (simp_all add: advance_def timers_fold_fire)
  from y le have "y \<in> set (due_timers t s)"
    by (simp add: due_timers_def)
  with no show False by blast
qed

text \<open>The invariant of the timers and the promise holds at every time.\<close>

lemma handle_timer_inv:
  assumes "pending_timer OverallTimer s \<or> zapReceipt s \<noteq> None \<or> outcome s \<noteq> Pending"
    and "\<forall>d. (d, OverallTimer) \<in> set (timers s) \<longrightarrow> d = 10000"
  shows "pending_timer OverallTimer (handle parse a s) \<or> zapReceipt (handle parse a s) \<noteq> None \<or>
         outcome (handle parse a s) \<noteq> Pending"
    and "\<forall>d. (d, OverallTimer) \<in> set (timers (handle parse a s)) \<longrightarrow> d = 10000"
  using assms by (cases a; auto simp: handlers image_iff split: handler_splits)+

lemma step_timed_inv: "timed_inv s \<Longrightarrow> timed_inv (step parse a s)"
proof -
  assume inv: "timed_inv s"
  then have a: "pending_timer OverallTimer (handle parse a s) \<or> zapReceipt (handle parse a s) \<noteq> None \<or>
         outcome (handle parse a s) \<noteq> Pending"
    and b: "\<forall>d. (d, OverallTimer) \<in> set (timers (handle parse a s)) \<longrightarrow> d = 10000"
    using handle_timer_inv [of s parse a] by (simp_all add: timed_inv_def)
  from a have "pending_timer OverallTimer (step parse a s) \<or> zapReceipt (step parse a s) \<noteq> None \<or>
         outcome (step parse a s) \<noteq> Pending"
    by (auto simp: step_def promise_all_outcome pending_timer_def)
  moreover from b have "\<forall>d. (d, OverallTimer) \<in> set (timers (step parse a s)) \<longrightarrow> d = 10000"
    by (simp add: step_def)
  moreover from inv have "\<forall>r. outcome (step parse a s) = Resolved (Some r) \<longrightarrow> zapReceipt (step parse a s) = Some r"
    using step_resolved_receipt [of s parse a] by (simp add: timed_inv_def)
  moreover from inv have "\<forall>e. outcome (step parse a s) \<noteq> Rejected e"
    using step_not_rejected [of s parse a] by (simp add: timed_inv_def)
  ultimately show ?thesis by (simp add: timed_inv_def)
qed

lemma now_timed_inv [simp]: "timed_inv (s\<lparr>now := t\<rparr>) = timed_inv s"
  by (simp add: timed_inv_def pending_timer_def)

lemma fire_at_timed_inv: "timed_inv s \<Longrightarrow> timed_inv (fire_at parse x s)"
  by (simp add: fire_at_def step_timed_inv)

lemma fold_fire_timed_inv: "timed_inv s \<Longrightarrow> timed_inv (fold (fire_at parse) L s)"
  by (induction L arbitrary: s) (simp_all add: fire_at_timed_inv)

lemma advance_timed_inv: "timed_inv s \<Longrightarrow> timed_inv (advance parse t s)"
  by (simp add: advance_def fold_fire_timed_inv)

lemma deliver_timed_inv: "timed_inv s \<Longrightarrow> timed_inv (deliver parse x s)"
  by (simp add: deliver_def step_timed_inv advance_timed_inv)

lemma fold_deliver_timed_inv: "timed_inv s \<Longrightarrow> timed_inv (fold (deliver parse) sched s)"
  by (induction sched arbitrary: s) (simp_all add: deliver_timed_inv)

lemma start_timed_inv: "timed_inv (start invoice recipient relayUrls)"
  by (simp add: timed_inv_def pending_timer_def start_outcome)

lemma state_at_timed_inv: "timed_inv s \<Longrightarrow> timed_inv (state_at parse T sched s)"
  by (simp add: state_at_def advance_timed_inv fold_deliver_timed_inv)

lemma state_at_overall_fired:
  assumes "timed_inv s" and "10000 \<le> T"
  shows "\<not> pending_timer OverallTimer (state_at parse T sched s)"
proof
  assume "pending_timer OverallTimer (state_at parse T sched s)"
  then obtain d where d: "(d, OverallTimer) \<in> set (timers (state_at parse T sched s))"
    by (auto simp: pending_timer_def)
  from state_at_timed_inv [OF assms(1), of parse T sched] d have "d = 10000"
    by (simp add: timed_inv_def)
  moreover from d have "T < d"
    unfolding state_at_def using advance_none_due by fastforce
  ultimately show False using assms(2) by simp
qed

lemma state_at_not_found:
  assumes "timed_inv s" and "10000 \<le> T" and "zapReceipt (state_at parse T sched s) = None"
  shows "outcome (state_at parse T sched s) = Resolved None"
proof -
  let ?s = "state_at parse T sched s"
  have inv: "timed_inv ?s" by (rule state_at_timed_inv [OF assms(1)])
  with state_at_overall_fired [OF assms(1,2), of parse sched] assms(3)
  have "outcome ?s \<noteq> Pending" by (simp add: timed_inv_def)
  with inv assms(3) show ?thesis
    by (cases "outcome ?s") (auto simp: timed_inv_def)
qed

text \<open>Peers that deliver nothing leave no receipt.\<close>

lemma step_quiet:
  "zapReceipt s = None \<Longrightarrow> (\<forall>i event. a \<noteq> OnEvent i event) \<Longrightarrow> zapReceipt (step parse a s) = None"
  by (cases a) (simp_all add: step_first_match delivered_match_def)

lemma fire_at_quiet: "zapReceipt s = None \<Longrightarrow> zapReceipt (fire_at parse x s) = None"
  by (simp add: fire_at_def step_quiet)

lemma fold_fire_quiet: "zapReceipt s = None \<Longrightarrow> zapReceipt (fold (fire_at parse) L s) = None"
  by (induction L arbitrary: s) (simp_all add: fire_at_quiet)

lemma advance_quiet: "zapReceipt s = None \<Longrightarrow> zapReceipt (advance parse t s) = None"
  by (simp add: advance_def fold_fire_quiet)

lemma deliver_quiet:
  "zapReceipt s = None \<Longrightarrow> delivers_nothing (snd x) \<Longrightarrow> zapReceipt (deliver parse x s) = None"
  by (cases "snd x") (simp_all add: deliver_def step_quiet advance_quiet delivers_nothing_def)

lemma fold_deliver_quiet:
  "zapReceipt s = None \<Longrightarrow> \<forall>x\<in>set sched. delivers_nothing (snd x) \<Longrightarrow>
   zapReceipt (fold (deliver parse) sched s) = None"
  by (induction sched arbitrary: s) (simp_all add: deliver_quiet)

lemma state_at_quiet:
  "zapReceipt s = None \<Longrightarrow> \<forall>x\<in>set sched. delivers_nothing (snd x) \<Longrightarrow>
   zapReceipt (state_at parse T sched s) = None"
  by (simp add: state_at_def advance_quiet fold_deliver_quiet)

lemma on_connect_ok_policy:
  "timers (on_connect_ok i s) = timers s @ [(now s + 5000, RelayTimer i)]"
  "i < length (relays s) \<Longrightarrow>
   subscription (relays (on_connect_ok i s) ! i) =
     Some \<lparr>kinds = [9735], p_tag = [q_recipientPubkey s], limit = 50\<rparr>"
  by (simp_all add: on_connect_ok_def setTimeout_def)

text \<open>
  Claim C7. When the relays deliver nothing (their connections hang, fail, or open a
  subscription on which nothing arrives), the query is resolved with \<^verbatim>\<open>null\<close> at every
  time from 10000 milliseconds on. The overall timer is set to 10000, the timer of a
  relay to 5000 after its connection, and the filter of a subscription has limit 50.
\<close>

theorem C7_bounded_latency:
  "((\<forall>x\<in>set sched. delivers_nothing (snd x)) \<longrightarrow> 10000 \<le> T \<longrightarrow>
      outcome (fetchZapReceiptForInvoice_at parse invoice recipient relayUrls sched T) =
        Resolved None) \<and>
   timers (start invoice recipient relayUrls) = [(10000, OverallTimer)] \<and>
   timers (on_connect_ok i s) = timers s @ [(now s + 5000, RelayTimer i)] \<and>
   (i < length (relays s) \<longrightarrow>
      subscription (relays (on_connect_ok i s) ! i) =
        Some \<lparr>kinds = [9735], p_tag = [q_recipientPubkey s], limit = 50\<rparr>)"
proof -
  have "outcome (fetchZapReceiptForInvoice_at parse invoice recipient relayUrls sched T) =
        Resolved None"
    if q: "\<forall>x\<in>set sched. delivers_nothing (snd x)" and T: "10000 \<le> T"
  proof -
    have "zapReceipt (state_at parse T sched (start invoice recipient relayUrls)) = None"
      using q by (simp add: state_at_quiet)
    with start_timed_inv T show ?thesis
      unfolding fetchZapReceiptForInvoice_at_def by (rule state_at_not_found)
  qed
  then show ?thesis
    using on_connect_ok_policy [of i s] by simp
qed

text \<open>
  One relay connects at once and the other after 6000 milliseconds: the query is
  pending at 9999 and resolved with \<^verbatim>\<open>null\<close> at 10000. So is a query on which no
  connection ever settles.
\<close>

theorem C7_bounded_latency_witness:
  "outcome (fetchZapReceiptForInvoice_at JSON_parse fixture_invoice (Some ''abc123...'')
      two_relays late_schedule 10000) = Resolved None \<and>
   outcome (fetchZapReceiptForInvoice_at JSON_parse fixture_invoice (Some ''abc123...'')
      two_relays late_schedule 9999) = Pending \<and>
   outcome (fetchZapReceiptForInvoice_at JSON_parse fixture_invoice (Some ''abc123...'')
      two_relays [] 12345) = Resolved None \<and>
   subscription
     (relays (on_connect_ok 0 (start fixture_invoice (Some ''abc123...'') two_relays)) ! 0) =
     Some \<lparr>kinds = [9735], p_tag = [Some ''abc123...''], limit = 50\<rparr> \<and>
   timers (on_connect_ok 0 (start fixture_invoice (Some ''abc123...'') two_relays)) =
     [(10000, OverallTimer), (5000, RelayTimer 0)]"
proof -
  have q: "\<forall>x\<in>set late_schedule. delivers_nothing (snd x)"
    by (simp add: late_schedule_def delivers_nothing_def)
  have i: "0 < length (relays (start fixture_invoice (Some ''abc123...'') two_relays))"
    by (simp add: two_relays_def)
  have before: "outcome (fetchZapReceiptForInvoice_at JSON_parse fixture_invoice
      (Some ''abc123...'') two_relays late_schedule 9999) = Pending"
    by (simp add: clock_eval)
  from C7_bounded_latency [of late_schedule 10000 JSON_parse fixture_invoice "Some ''abc123...''"
      two_relays 0 "start fixture_invoice (Some ''abc123...'') two_relays"]
    C7_bounded_latency [of "[]" 12345 JSON_parse fixture_invoice "Some ''abc123...''"
      two_relays 0 "start fixture_invoice (Some ''abc123...'') two_relays"]
    q before i
  show ?thesis by simp
qed

section \<open>Errors\<close>

lemma fetch_no_relays:
  "outcome (fetchZapReceiptForInvoice parse invoice recipient [] tr) = Resolved None \<and>
   relays (fetchZapReceiptForInvoice parse invoice recipient [] tr) = []"
proof -
  have "outcome (run parse tr (start invoice recipient [])) = outcome (start invoice recipient [])"
    by (rule run_settled) (simp add: start_outcome)
  then have "outcome (run parse tr (start invoice recipient [])) = Resolved None"
    by (simp add: start_outcome)
  moreover have "length (relays (run parse tr (start invoice recipient []))) = 0"
    by simp
  then have "relays (run parse tr (start invoice recipient [])) = []"
    by (simp only: length_0_conv)
  ultimately show ?thesis
    by (simp only: fetchZapReceiptForInvoice_def simp_thms)
qed

lemma fetch_all_failed:
  assumes "list_all (\<lambda>b. \<not> connecting b \<and> \<not> connected b)
             (relays (fetchZapReceiptForInvoice parse invoice recipient relayUrls tr))"
  shows "outcome (fetchZapReceiptForInvoice parse invoice recipient relayUrls tr) = Resolved None"
proof -
  let ?s = "fetchZapReceiptForInvoice parse invoice recipient relayUrls tr"
  have inv: "branch_inv ?s" by (rule fetch_branch_inv)
  from assms inv have "list_all relay_done (relays ?s)"
    by (auto simp: list_all_length branch_inv_def)
  then have "outcome ?s \<noteq> Pending" by (rule fetch_done)
  moreover from assms inv have "zapReceipt ?s = None"
    by (auto simp: list_all_length branch_inv_def)
  ultimately show ?thesis
    using fetch_outcome_cases [of parse invoice recipient relayUrls tr] by auto
qed

text \<open>
  Claim C8, as the code has it. The returned promise is never rejected, whatever the
  arguments and the callbacks. On an empty relay list no branch is started and the
  query resolves with \<^verbatim>\<open>null\<close>. When every connection has failed the query resolves
  with \<^verbatim>\<open>null\<close>; and while no receipt is stored the promise is pending or resolved with
  \<^verbatim>\<open>null\<close>.
\<close>

theorem C8_never_raises:
  "outcome (fetchZapReceiptForInvoice parse invoice recipient relayUrls tr) \<noteq> Rejected e \<and>
   outcome (fetchZapReceiptForInvoice parse invoice recipient [] tr) = Resolved None \<and>
   relays (fetchZapReceiptForInvoice parse invoice recipient [] tr) = [] \<and>
   (list_all (\<lambda>b. \<not> connecting b \<and> \<not> connected b)
      (relays (fetchZapReceiptForInvoice parse invoice recipient relayUrls tr)) \<longrightarrow>
    outcome (fetchZapReceiptForInvoice parse invoice recipient relayUrls tr) = Resolved None) \<and>
   (zapReceipt (fetchZapReceiptForInvoice parse invoice recipient relayUrls tr) = None \<longrightarrow>
    outcome (fetchZapReceiptForInvoice parse invoice recipient relayUrls tr) = Pending \<or>
    outcome (fetchZapReceiptForInvoice parse invoice recipient relayUrls tr) = Resolved None)"
  using fetch_not_rejected [of parse invoice recipient relayUrls tr e]
    fetch_no_relays [of parse invoice recipient tr]
    fetch_all_failed [of parse invoice recipient relayUrls tr]
    fetch_outcome_cases [of parse invoice recipient relayUrls tr]
  by auto

text \<open>
  Two relays whose connections fail: the query is pending after the first failure and
  resolved with \<^verbatim>\<open>null\<close> after the second.
\<close>

theorem C8_never_raises_witness:
  "outcome (fetchZapReceiptForInvoice JSON_parse fixture_invoice (Some ''abc123...'') two_relays
      [ConnectFail 0, ConnectFail 1]) = Resolved None \<and>
   outcome (fetchZapReceiptForInvoice JSON_parse fixture_invoice (Some ''abc123...'') two_relays
      [ConnectFail 0]) = Pending \<and>
   outcome (fetchZapReceiptForInvoice JSON_parse fixture_invoice (Some ''abc123...'') []
      [ConnectFail 0]) = Resolved None"
proof -
  let ?f = "fetchZapReceiptForInvoice JSON_parse fixture_invoice (Some ''abc123...'') two_relays"
  have failed: "list_all (\<lambda>b. \<not> connecting b \<and> \<not> connected b)
                  (relays (?f [ConnectFail 0, ConnectFail 1]))"
    by (simp add: run_eval)
  have one: "outcome (?f [ConnectFail 0]) \<noteq> Resolved None"
    "zapReceipt (?f [ConnectFail 0]) = None"
    by (simp_all add: run_eval)
  from C8_never_raises [of JSON_parse fixture_invoice "Some ''abc123...''" two_relays
      "[ConnectFail 0, ConnectFail 1]" TypeError]
    C8_never_raises [of JSON_parse fixture_invoice "Some ''abc123...''" two_relays
      "[ConnectFail 0]" TypeError]
    failed one
  show ?thesis by simp
qed

text \<open>
  The call with an empty relay list: the promise is resolved with \<^verbatim>\<open>null\<close>, not
  rejected, and no branch exists.
\<close>

theorem C8_counterexample:
  "outcome (fetchZapReceiptForInvoice JSON_parse fixture_invoice (Some ''abc123...'') [] []) =
     Resolved None \<and>
   relays (fetchZapReceiptForInvoice JSON_parse fixture_invoice (Some ''abc123...'') [] []) = []"
  by (simp add: query_eval)

section \<open>The stored receipt\<close>

lemma run_first_match:
  "zapReceipt s = None \<Longrightarrow>
   zapReceipt (run parse tr s) = (case matches parse tr s of [] \<Rightarrow> None | r # rest \<Rightarrow> Some r)"
proof (induction tr arbitrary: s)
  case Nil
  then show ?case by simp
next
  case (Cons a tr)
  show ?case
  proof (cases "delivered_match parse a s")
    case None
    with Cons.prems have "zapReceipt (step parse a s) = None"
      by (simp add: step_first_match)
    from Cons.IH [OF this] None show ?thesis by simp
  next
    case (Some r)
    with Cons.prems have "zapReceipt (step parse a s) = Some r"
      by (simp add: step_first_match)
    then have "zapReceipt (run parse tr (step parse a s)) = Some r"
      by (rule run_zapReceipt_kept)
    with Some show ?thesis by simp
  qed
qed

lemma writes_none: "zapReceipt s = Some r \<Longrightarrow> writes parse tr s = 0"
  by (induction tr arbitrary: s) (simp_all add: step_zapReceipt_kept)

lemma writes_once: "writes parse tr s \<le> 1"
proof (induction tr arbitrary: s)
  case Nil
  show ?case by simp
next
  case (Cons a tr)
  show ?case
  proof (cases "zapReceipt (step parse a s) = zapReceipt s")
    case True
    with Cons.IH [of "step parse a s"] show ?thesis by simp
  next
    case False
    then obtain r where "zapReceipt (step parse a s) = Some r"
      using step_zapReceipt_kept [of s _ parse a] by (cases "zapReceipt s"; cases "zapReceipt (step parse a s)") auto
    then have "writes parse tr (step parse a s) = 0" by (rule writes_none)
    with False show ?thesis by simp
  qed
qed

text \<open>
  Within a query the stored receipt is the first receipt that a callback accepts; over
  any sequence of callbacks it is written at most once; and once it is stored, no later
  callback of any relay changes it.
\<close>

lemma zapReceipt_one_shot:
  "zapReceipt (fetchZapReceiptForInvoice parse invoice recipient relayUrls tr) =
     (case matches parse tr (start invoice recipient relayUrls) of [] \<Rightarrow> None | r # rest \<Rightarrow> Some r) \<and>
   writes parse tr (start invoice recipient relayUrls) \<le> 1 \<and>
   (zapReceipt (fetchZapReceiptForInvoice parse invoice recipient relayUrls tr) = Some r \<longrightarrow>
    zapReceipt (fetchZapReceiptForInvoice parse invoice recipient relayUrls (tr @ tr')) = Some r \<and>
    writes parse tr' (fetchZapReceiptForInvoice parse invoice recipient relayUrls tr) = 0)"
  using run_first_match [of "start invoice recipient relayUrls" parse tr]
    writes_once [of parse tr "start invoice recipient relayUrls"]
    run_zapReceipt_kept [of "run parse tr (start invoice recipient relayUrls)" r parse tr']
    writes_none [of "run parse tr (start invoice recipient relayUrls)" r parse tr']
  by (simp add: fetchZapReceiptForInvoice_def)

text \<open>
  Both relays deliver a record that the matcher accepts: the receipt of the first one is
  stored and kept.
\<close>

lemma zapReceipt_one_shot_example:
  "zapReceipt (fetchZapReceiptForInvoice JSON_parse fixture_invoice (Some ''abc123...'') two_relays
     [ConnectOk 0, ConnectOk 1, OnEvent 0 (NostrEvent (Some fixture_tags))]) = Some fixture_receipt \<and>
   zapReceipt (fetchZapReceiptForInvoice JSON_parse fixture_invoice (Some ''abc123...'') two_relays
     ([ConnectOk 0, ConnectOk 1, OnEvent 0 (NostrEvent (Some fixture_tags))] @
      [OnEvent 1 (NostrEvent (Some (fixture_tags @ [[''e'', ''note1'']])))])) = Some fixture_receipt \<and>
   length (matches JSON_parse
     [ConnectOk 0, ConnectOk 1, OnEvent 0 (NostrEvent (Some fixture_tags)),
      OnEvent 1 (NostrEvent (Some (fixture_tags @ [[''e'', ''note1'']])))]
     (start fixture_invoice (Some ''abc123...'') two_relays)) = 2"
proof -
  let ?tr = "[ConnectOk 0, ConnectOk 1, OnEvent 0 (NostrEvent (Some fixture_tags))]"
  let ?tr' = "[OnEvent 1 (NostrEvent (Some (fixture_tags @ [[''e'', ''note1'']])))]"
  have first: "zapReceipt (fetchZapReceiptForInvoice JSON_parse fixture_invoice
                 (Some ''abc123...'') two_relays ?tr) = Some fixture_receipt"
    by (simp add: run_eval)
  have two: "length (matches JSON_parse (?tr @ ?tr')
               (start fixture_invoice (Some ''abc123...'') two_relays)) = 2"
    by (simp add: delivered_match_def run_eval matcher_eval fixture_tags_def fixture_invoice_def
        logs_receipt_def slice16_def)
  from zapReceipt_one_shot [of JSON_parse fixture_invoice "Some ''abc123...''" two_relays ?tr
      fixture_receipt ?tr'] first two
  show ?thesis by simp
qed

text \<open>
  Claim C9 on the code. One relay delivers two records that the matcher accepts, the
  first with the number 123 as the pubkey of its request. The matcher gives a receipt
  for the first record, but \<^verbatim>\<open>onevent\<close> throws in the log line that slices the sender,
  before the receipt is stored: after the first record nothing is stored and the query
  is pending. The second record is then matched, and the query resolves with its
  receipt and not with that of the first.
\<close>

theorem C9_first_accepted_not_stored:
  "parseZapReceipt JSON_parse (NostrEvent (Some numeric_sender_tags)) fixture_invoice =
     Inr (Some numeric_sender_receipt) \<and>
   slice16 (senderPubkey numeric_sender_receipt) = Inl TypeError \<and>
   zapReceipt (fetchZapReceiptForInvoice JSON_parse fixture_invoice (Some ''abc123...'')
     [''wss://relay-1''] [ConnectOk 0, OnEvent 0 (NostrEvent (Some numeric_sender_tags))]) = None \<and>
   outcome (fetchZapReceiptForInvoice JSON_parse fixture_invoice (Some ''abc123...'')
     [''wss://relay-1''] [ConnectOk 0, OnEvent 0 (NostrEvent (Some numeric_sender_tags))]) = Pending \<and>
   outcome (fetchZapReceiptForInvoice JSON_parse fixture_invoice (Some ''abc123...'')
     [''wss://relay-1'']
     [ConnectOk 0, OnEvent 0 (NostrEvent (Some numeric_sender_tags)),
      OnEvent 0 (NostrEvent (Some fixture_tags))]) = Resolved (Some fixture_receipt) \<and>
   fixture_receipt \<noteq> numeric_sender_receipt"
  by (simp add: run_eval parseZapReceipt_numeric_sender logs_receipt_def slice16_def
      numeric_sender_receipt_def fixture_receipt_def)

section \<open>The batch query: lemmas\<close>

lemma batch_queries_length:
  "length traces = length invoices \<Longrightarrow> length (batch_queries parse invoices traces) = length invoices"
  by (simp add: batch_queries_def)

lemma batch_queries_nth:
  "length traces = length invoices \<Longrightarrow> i < length invoices \<Longrightarrow>
   batch_queries parse invoices traces ! i =
     fetchZapReceiptForInvoice parse (invoices ! i) None default_relayUrls (traces ! i)"
  by (simp add: batch_queries_def)

lemma fetch_subscription:
  assumes "j < length relayUrls"
    and "subscription (relays (fetchZapReceiptForInvoice parse invoice recipient relayUrls tr) ! j) = Some f"
  shows "f = \<lparr>kinds = [9735], p_tag = [recipient], limit = 50\<rparr>"
  using fetch_branch_inv [of parse invoice recipient relayUrls tr] assms
  by (simp add: branch_inv_def fetch_params)

lemma image_set_Cons:
  "{f i | i. i \<in> set (k # xs) \<and> P i} =
     (if P k then {f k} else {}) \<union> {f i | i. i \<in> set xs \<and> P i}"
  by auto

lemma dom_results:
  "dom (fold (\<lambda>i results.
               case outcome (qs ! i) of
                 Resolved (Some receipt) \<Rightarrow> results(invoices ! i \<mapsto> receipt)
               | _ \<Rightarrow> results) order m) =
   dom m \<union> {invoices ! i | i. i \<in> set order \<and> (\<exists>r. outcome (qs ! i) = Resolved (Some r))}"
proof (induction order arbitrary: m)
  case Nil
  show ?case by simp
next
  case (Cons k order)
  let ?F = "\<lambda>i results.
               case outcome (qs ! i) of
                 Resolved (Some receipt) \<Rightarrow> results(invoices ! i \<mapsto> receipt)
               | _ \<Rightarrow> results"
  let ?R = "{invoices ! i | i. i \<in> set order \<and> (\<exists>r. outcome (qs ! i) = Resolved (Some r))}"
  have unfold: "fold ?F (k # order) m = fold ?F order (?F k m)"
    by simp
  show ?case
  proof (cases "\<exists>r. outcome (qs ! k) = Resolved (Some r)")
    case True
    then obtain r where r: "outcome (qs ! k) = Resolved (Some r)" ..
    then have "?F k m = m(invoices ! k \<mapsto> r)"
      by simp
    then have "dom (fold ?F (k # order) m) = dom (m(invoices ! k \<mapsto> r)) \<union> ?R"
      unfolding unfold by (simp only: Cons.IH)
    also have "\<dots> = insert (invoices ! k) (dom m \<union> ?R)"
      by (simp only: dom_fun_upd option.simps if_False Un_insert_left)
    finally show ?thesis
      unfolding image_set_Cons using True by simp
  next
    case False
    then have "?F k m = m"
      by (auto split: promise.splits option.splits)
    then have "dom (fold ?F (k # order) m) = dom m \<union> ?R"
      unfolding unfold by (simp only: Cons.IH)
    then show ?thesis
      unfolding image_set_Cons using False by simp
  qed
qed

text \<open>
  Claim C10. Every query of a batch has the invoice of its position and no recipient,
  so every subscription of the batch filters on \<^verbatim>\<open>[undefined]\<close>. The batch is pending
  exactly while one of its queries is; when it returns, the keys of the map are the
  invoices whose query resolved with a receipt.
\<close>

theorem C10_batch_without_recipient:
  assumes "length traces = length invoices" and "set order = {..<length invoices}"
  shows "(\<forall>i<length invoices.
            q_invoice (batch_queries parse invoices traces ! i) = invoices ! i \<and>
            q_recipientPubkey (batch_queries parse invoices traces ! i) = None \<and>
            (\<forall>j<length (relays (batch_queries parse invoices traces ! i)). \<forall>f.
               subscription (relays (batch_queries parse invoices traces ! i) ! j) = Some f \<longrightarrow>
               p_tag f = [None])) \<and>
         ((fetchZapReceiptsForInvoices parse invoices traces order = None) =
            (\<exists>i<length invoices. outcome (batch_queries parse invoices traces ! i) = Pending)) \<and>
         (\<forall>m. fetchZapReceiptsForInvoices parse invoices traces order = Some m \<longrightarrow>
            dom m = {invoices ! i | i. i < length invoices \<and>
                       (\<exists>r. outcome (batch_queries parse invoices traces ! i) = Resolved (Some r))})"
proof (intro conjI allI impI)
  fix i assume i: "i < length invoices"
  show "q_invoice (batch_queries parse invoices traces ! i) = invoices ! i"
    and "q_recipientPubkey (batch_queries parse invoices traces ! i) = None"
    using assms(1) i by (simp_all add: batch_queries_nth fetch_params)
  fix j f
  assume "j < length (relays (batch_queries parse invoices traces ! i))"
    and "subscription (relays (batch_queries parse invoices traces ! i) ! j) = Some f"
  then show "p_tag f = [None]"
    using assms(1) i fetch_subscription [of j default_relayUrls parse "invoices ! i" None "traces ! i" f]
    by (simp add: batch_queries_nth fetch_params)
next
  show "(fetchZapReceiptsForInvoices parse invoices traces order = None) =
        (\<exists>i<length invoices. outcome (batch_queries parse invoices traces ! i) = Pending)"
    using assms(1)
    by (auto simp: fetchZapReceiptsForInvoices_def Let_def list_all_length batch_queries_length)
next
  fix m
  assume "fetchZapReceiptsForInvoices parse invoices traces order = Some m"
  then have "m = fold (\<lambda>i results.
                      case outcome (batch_queries parse invoices traces ! i) of
                        Resolved (Some receipt) \<Rightarrow> results(invoices ! i \<mapsto> receipt)
                      | _ \<Rightarrow> results)
                order Map.empty"
    by (simp add: fetchZapReceiptsForInvoices_def Let_def split: if_splits)
  then show "dom m = {invoices ! i | i. i < length invoices \<and>
                       (\<exists>r. outcome (batch_queries parse invoices traces ! i) = Resolved (Some r))}"
    using assms(2) by (simp add: dom_results)
qed

text \<open>
  A batch of two invoices: the first query finds the fixture on its first relay, the
  second finds nothing.
\<close>

theorem C10_batch_without_recipient_witness:
  "subscription (relays (batch_queries JSON_parse [fixture_invoice, ''lnbc200n1p...'']
       [[ConnectOk 0, OnEvent 0 (NostrEvent (Some fixture_tags)), ConnectFail 1, ConnectFail 2,
         ConnectFail 3],
        [ConnectFail 0, ConnectFail 1, ConnectFail 2, ConnectFail 3]] ! 0) ! 0) =
     Some \<lparr>kinds = [9735], p_tag = [None], limit = 50\<rparr> \<and>
   (\<exists>m. fetchZapReceiptsForInvoices JSON_parse [fixture_invoice, ''lnbc200n1p...'']
       [[ConnectOk 0, OnEvent 0 (NostrEvent (Some fixture_tags)), ConnectFail 1, ConnectFail 2,
         ConnectFail 3],
        [ConnectFail 0, ConnectFail 1, ConnectFail 2, ConnectFail 3]] [1, 0] = Some m \<and>
      dom m = {fixture_invoice})"
proof -
  let ?invoices = "[fixture_invoice, ''lnbc200n1p...'']"
  let ?traces = "[[ConnectOk 0, OnEvent 0 (NostrEvent (Some fixture_tags)), ConnectFail 1,
                   ConnectFail 2, ConnectFail 3],
                  [ConnectFail 0, ConnectFail 1, ConnectFail 2, ConnectFail 3]]"
  let ?qs = "batch_queries JSON_parse ?invoices ?traces"
  have len: "length ?traces = length ?invoices" by simp
  have ord: "set [1, 0::nat] = {..<length ?invoices}" by auto
  have q0: "outcome (?qs ! 0) = Resolved (Some fixture_receipt)"
    by (simp add: batch_queries_def default_relayUrls_def run_eval)
  have q1: "outcome (?qs ! 1) = Resolved None"
    by (simp add: batch_queries_def default_relayUrls_def run_eval)
  have sub0: "subscription (relays (?qs ! 0) ! 0) = Some \<lparr>kinds = [9735], p_tag = [None], limit = 50\<rparr>"
    by (simp add: batch_queries_def default_relayUrls_def run_eval)
  note th = C10_batch_without_recipient [OF len ord, of JSON_parse]
  from th q0 q1 have "fetchZapReceiptsForInvoices JSON_parse ?invoices ?traces [1, 0] \<noteq> None"
    by (auto simp: less_Suc_eq)
  then obtain m where m: "fetchZapReceiptsForInvoices JSON_parse ?invoices ?traces [1, 0] = Some m"
    by blast
  with th have "dom m = {?invoices ! i | i. i < length ?invoices \<and>
                       (\<exists>r. outcome (?qs ! i) = Resolved (Some r))}"
    by blast
  also have "\<dots> = {fixture_invoice}"
  proof -
    have "(i < length ?invoices \<and> (\<exists>r. outcome (?qs ! i) = Resolved (Some r))) = (i = 0)" for i
      using q0 q1 by (auto simp: less_Suc_eq)
    then show ?thesis by simp
  qed
  finally have "dom m = {fixture_invoice}" .
  with m sub0 show ?thesis by blast
qed

end
